theory Spec2Isabelle
  imports Complex_Main
begin

section \<open>JavaScript numbers\<close>

text \<open>
  The development embeds \<^verbatim>\<open>src/core/nestingEngine.js\<close>: the class
  \<^verbatim>\<open>NestingEngine\<close> and the class \<^verbatim>\<open>GuillouinePacker\<close>.

  A JavaScript number is an IEEE 754 double. A finite double is a rational number, and
  the model holds it as that rational: \<^typ>\<open>rat\<close>. The operators \<^verbatim>\<open>+\<close>, \<^verbatim>\<open>-\<close> and
  \<^verbatim>\<open>*\<close> compute the exact result and round it to the nearest double, ties to the even
  significand: \<open>rd\<close>. A double has 53 significant bits, so a number \<open>q\<close> with
  \<open>2^e \<le> \<bar>q\<bar> < 2^(e+1)\<close> is rounded to a multiple of \<open>2^(e-52)\<close>, and below the normal
  range to a multiple of \<open>2^(-1074)\<close>. Comparisons, \<^verbatim>\<open>Math.max\<close> and \<^verbatim>\<open>Math.min\<close> are
  exact on doubles. A decimal literal such as \<^verbatim>\<open>7.7\<close> denotes \<open>rd (77 / 10)\<close>.

  The model covers finite numbers whose results stay below \<open>2^1024\<close>: overflow to
  \<^verbatim>\<open>Infinity\<close> and \<^verbatim>\<open>NaN\<close> are left out. The \<^verbatim>\<open>Infinity\<close> the search loop starts
  from, \<^verbatim>\<open>null\<close> and \<^verbatim>\<open>undefined\<close> are \<open>None\<close>.
\<close>

text \<open>\<open>log2 n\<close> is the position of the leading bit of \<open>n \<ge> 1\<close>.\<close>

function log2 :: "int \<Rightarrow> int" where
  "log2 n = (if n < 2 then 0 else 1 + log2 (n div 2))"
  by pat_completeness auto
termination
  by (relation "measure nat") auto

definition pow2 :: "int \<Rightarrow> rat" where
  "pow2 k = (if 0 \<le> k then of_int (2 ^ nat k) else 1 / of_int (2 ^ nat (- k)))"

text \<open>
  The binary exponent \<open>e\<close> of \<open>q \<noteq> 0\<close>, with \<open>2^e \<le> \<bar>q\<bar> < 2^(e+1)\<close>: for \<open>\<bar>q\<bar> = a / b\<close> it
  is the difference of the leading bits of \<open>a\<close> and \<open>b\<close>, or one less.
\<close>

definition expo :: "rat \<Rightarrow> int" where
  "expo q =
     (case quotient_of \<bar>q\<bar> of (a, b) \<Rightarrow>
        let d = log2 a - log2 b
        in if pow2 d \<le> \<bar>q\<bar> then d else d - 1)"

text \<open>The nearest integer, the even one of the two when \<open>q\<close> lies halfway.\<close>

definition nearest_even :: "rat \<Rightarrow> int" where
  "nearest_even q =
     (let f = \<lfloor>q\<rfloor>; r = q - of_int f
      in if r < 1 / 2 then f else if 1 / 2 < r then f + 1 else if even f then f else f + 1)"

definition rd :: "rat \<Rightarrow> rat" where
  "rd q =
     (if q = 0 then 0
      else let u = pow2 (max (expo q - 52) (- 1074))
           in of_int (nearest_even (q / u)) * u)"

text \<open>The operators \<^verbatim>\<open>+\<close>, \<^verbatim>\<open>-\<close> and \<^verbatim>\<open>*\<close> on doubles.\<close>

definition fadd :: "rat \<Rightarrow> rat \<Rightarrow> rat" where
  "fadd a b = rd (a + b)"

definition fsub :: "rat \<Rightarrow> rat \<Rightarrow> rat" where
  "fsub a b = rd (a - b)"

definition fmul :: "rat \<Rightarrow> rat \<Rightarrow> rat" where
  "fmul a b = rd (a * b)"

section \<open>Data model of the nesting engine\<close>

text \<open>
  Identifiers and the payload \<^verbatim>\<open>originalItem\<close> are opaque: type variables.
\<close>

text \<open>An item as \<^verbatim>\<open>nest\<close> receives it: \<^verbatim>\<open>{id, width, height, originalItem}\<close>.\<close>

record ('i, 'p) item =
  item_id :: 'i
  item_width :: rat
  item_height :: rat
  item_originalItem :: 'p

text \<open>A free rectangle of the packer: \<^verbatim>\<open>{x, y, width, height}\<close>.\<close>

record rect =
  rect_x :: rat
  rect_y :: rat
  rect_width :: rat
  rect_height :: rat

text \<open>The object \<^verbatim>\<open>insert\<close> returns: \<^verbatim>\<open>{id, x, y, width, height}\<close>.\<close>

record 'i placement =
  pid :: 'i
  px :: rat
  py :: rat
  pwidth :: rat
  pheight :: rat

text \<open>
  The object \<^verbatim>\<open>nest\<close> pushes: the spread of the packer's placement, with
  \<^verbatim>\<open>originalItem\<close> and \<^verbatim>\<open>rotated\<close>.
\<close>

record ('i, 'p) nested = "'i placement" +
  originalItem :: 'p
  rotated :: bool

text \<open>The options object of the engine's constructor; an absent key is \<open>None\<close>.\<close>

record options =
  opt_spacing :: "rat option"
  opt_allowRotation :: "bool option"
  opt_targetWidth :: "rat option"
  opt_targetHeight :: "rat option"

record engine =
  spacing :: rat
  allowRotation :: bool
  targetWidth :: rat
  targetHeight :: rat

record packer =
  binWidth :: rat
  binHeight :: rat
  pk_spacing :: rat
  freeRectangles :: "rect list"

section \<open>The constructor of the engine\<close>

text \<open>
  \<^verbatim>\<open>v || d\<close> on a number: \<open>d\<close> when \<open>v\<close> is undefined or falsy, and the only falsy
  finite number is \<open>0\<close>. On a boolean: \<open>d\<close> when \<open>v\<close> is undefined or \<open>false\<close>.
\<close>

definition or_num :: "rat option \<Rightarrow> rat \<Rightarrow> rat" where
  "or_num v d = (case v of None \<Rightarrow> d | Some n \<Rightarrow> if n = 0 then d else n)"

definition or_bool :: "bool option \<Rightarrow> bool \<Rightarrow> bool" where
  "or_bool v d = (case v of None \<Rightarrow> d | Some b \<Rightarrow> if b then True else d)"

definition NestingEngine :: "options \<Rightarrow> engine" where
  "NestingEngine opts =
     \<lparr> spacing = or_num (opt_spacing opts) 10,
       allowRotation = or_bool (opt_allowRotation opts) False,
       targetWidth = or_num (opt_targetWidth opts) 1000,
       targetHeight = or_num (opt_targetHeight opts) 1000 \<rparr>"

section \<open>The guillotine packer\<close>

definition GuillouinePacker :: "rat \<Rightarrow> rat \<Rightarrow> rat \<Rightarrow> packer" where
  "GuillouinePacker width height sp =
     \<lparr> binWidth = width, binHeight = height, pk_spacing = sp,
       freeRectangles = [\<lparr> rect_x = 0, rect_y = 0, rect_width = width, rect_height = height \<rparr>] \<rparr>"

definition isContained :: "rect \<Rightarrow> rect \<Rightarrow> bool" where
  "isContained r container \<longleftrightarrow>
     rect_x r \<ge> rect_x container \<and>
     rect_y r \<ge> rect_y container \<and>
     fadd (rect_x r) (rect_width r) \<le> fadd (rect_x container) (rect_width container) \<and>
     fadd (rect_y r) (rect_height r) \<le> fadd (rect_y container) (rect_height container)"

text \<open>
  \<^verbatim>\<open>mergeRectangles\<close>: the filter keeps the rectangle at index \<open>i\<close> unless a rectangle
  at another index of the list being filtered contains it.
\<close>

definition merge_keeps :: "rect list \<Rightarrow> nat \<times> rect \<Rightarrow> bool" where
  "merge_keeps rs ir \<longleftrightarrow>
     \<not> (\<exists>j \<in> set [0 ..< length rs]. fst ir \<noteq> j \<and> isContained (snd ir) (rs ! j))"

definition mergeRectangles :: "packer \<Rightarrow> packer" where
  "mergeRectangles p =
     p \<lparr> freeRectangles :=
           map snd (filter (merge_keeps (freeRectangles p)) (enumerate 0 (freeRectangles p))) \<rparr>"

text \<open>\<^verbatim>\<open>a.splice(index, 1)\<close> removes the element at \<open>index\<close>, when there is one.\<close>

definition splice1 :: "nat \<Rightarrow> 'a list \<Rightarrow> 'a list" where
  "splice1 index xs = take index xs @ drop (Suc index) xs"

definition splitFreeNode :: "packer \<Rightarrow> rect \<Rightarrow> rat \<Rightarrow> rat \<Rightarrow> nat \<Rightarrow> packer" where
  "splitFreeNode p freeRect usedWidth usedHeight index =
     (let fr0 = splice1 index (freeRectangles p);
          rightWidth = fsub (rect_width freeRect) usedWidth;
          bottomHeight = fsub (rect_height freeRect) usedHeight;
          fr1 = (if rightWidth > 0
                 then fr0 @ [\<lparr> rect_x = fadd (rect_x freeRect) usedWidth, rect_y = rect_y freeRect,
                               rect_width = rightWidth, rect_height = rect_height freeRect \<rparr>]
                 else fr0);
          fr2 = (if bottomHeight > 0
                 then fr1 @ [\<lparr> rect_x = rect_x freeRect, rect_y = fadd (rect_y freeRect) usedHeight,
                               rect_width = usedWidth, rect_height = bottomHeight \<rparr>]
                 else fr1)
      in mergeRectangles (p \<lparr> freeRectangles := fr2 \<rparr>))"

text \<open>
  The search loop of \<^verbatim>\<open>insert\<close>. Its three variables start at
  \<^verbatim>\<open>null\<close>, \<open>-1\<close> and \<^verbatim>\<open>Infinity\<close>; a finite number is below \<^verbatim>\<open>Infinity\<close>.
\<close>

record best =
  bestRect :: "rect option"
  bestIndex :: int
  bestShortSideFit :: "rat option"

definition below :: "rat \<Rightarrow> rat option \<Rightarrow> bool" where
  "below s b = (case b of None \<Rightarrow> True | Some t \<Rightarrow> s < t)"

definition search_step :: "rect list \<Rightarrow> rat \<Rightarrow> rat \<Rightarrow> best \<Rightarrow> nat \<Rightarrow> best" where
  "search_step rs w h b i =
     (let r = rs ! i in
      if w \<le> rect_width r \<and> h \<le> rect_height r then
        (let leftoverHoriz = fsub (rect_width r) w;
             leftoverVert = fsub (rect_height r) h;
             shortSideFit = min leftoverHoriz leftoverVert
         in if below shortSideFit (bestShortSideFit b)
            then \<lparr> bestRect = Some r, bestIndex = int i, bestShortSideFit = Some shortSideFit \<rparr>
            else b)
      else b)"

definition search :: "rect list \<Rightarrow> rat \<Rightarrow> rat \<Rightarrow> best" where
  "search rs w h =
     foldl (search_step rs w h)
       \<lparr> bestRect = None, bestIndex = -1, bestShortSideFit = None \<rparr> [0 ..< length rs]"

text \<open>
  \<^verbatim>\<open>insert(width, height, id)\<close> returns the placement or \<^verbatim>\<open>null\<close>, and the packer as
  the call leaves it.
\<close>

definition packer_insert ::
  "packer \<Rightarrow> rat \<Rightarrow> rat \<Rightarrow> 'i \<Rightarrow> 'i placement option \<times> packer" where
  "packer_insert p width height ident =
     (let w = fadd width (pk_spacing p);
          h = fadd height (pk_spacing p);
          b = search (freeRectangles p) w h
      in case bestRect b of
           None \<Rightarrow> (None, p)
         | Some r \<Rightarrow>
             (Some \<lparr> pid = ident, px = rect_x r, py = rect_y r, pwidth = width, pheight = height \<rparr>,
              splitFreeNode p r w h (nat (bestIndex b))))"

section \<open>The nesting engine\<close>

text \<open>
  \<^verbatim>\<open>[...items].sort((a, b) => b.width * b.height - a.width * a.height)\<close>: a stable
  sort, largest area first. The areas are rounded products; the difference of two doubles
  has the sign of their exact difference, so the comparator orders the items by the
  rounded area.
\<close>

definition area :: "('i, 'p) item \<Rightarrow> rat" where
  "area a = fmul (item_width a) (item_height a)"

definition sortedItems :: "('i, 'p) item list \<Rightarrow> ('i, 'p) item list" where
  "sortedItems items = sort_key (\<lambda>a. - area a) items"

text \<open>
  One round of the placement loop of \<^verbatim>\<open>nest\<close> (lines 38 to 61): the state is the
  packer and the two lists \<^verbatim>\<open>placements\<close> and \<^verbatim>\<open>unplacedItems\<close>. The first
  \<^verbatim>\<open>insert\<close> takes the item as given; when it returns \<^verbatim>\<open>null\<close>, rotation is
  allowed and the item is not square, a second \<^verbatim>\<open>insert\<close> takes the item turned, and
  its placement, if any, is marked rotated.
\<close>

definition place_item ::
  "engine \<Rightarrow> packer \<times> ('i, 'p) nested list \<times> ('i, 'p) item list \<Rightarrow> ('i, 'p) item
     \<Rightarrow> packer \<times> ('i, 'p) nested list \<times> ('i, 'p) item list" where
  "place_item e st it =
     (case st of (p0, placements, unplacedItems) \<Rightarrow>
        (case packer_insert p0 (item_width it) (item_height it) (item_id it) of (first, p1) \<Rightarrow>
           (case (if first = None \<and> allowRotation e \<and> item_width it \<noteq> item_height it
                  then (case packer_insert p1 (item_height it) (item_width it) (item_id it) of
                          (second, p2) \<Rightarrow> (second, second \<noteq> None, p2))
                  else (first, False, p1)) of
              (result, rot, p3) \<Rightarrow>
                (case result of
                   Some pl \<Rightarrow>
                     (p3,
                      placements @ [placement.extend pl
                         (nested.fields (item_originalItem it) rot)],
                      unplacedItems)
                 | None \<Rightarrow> (p3, placements, unplacedItems @ [it])))))"

text \<open>
  The whole loop over the sorted items, on a fresh packer (lines 23 to 61), and the two
  lists it leaves: \<^verbatim>\<open>placements\<close> and \<^verbatim>\<open>unplacedItems\<close>.
\<close>

definition loop_result ::
  "engine \<Rightarrow> ('i, 'p) item list
     \<Rightarrow> packer \<times> ('i, 'p) nested list \<times> ('i, 'p) item list" where
  "loop_result e items =
     foldl (place_item e)
       (GuillouinePacker (targetWidth e) (targetHeight e) (spacing e), [], [])
       (sortedItems items)"

definition attempt ::
  "engine \<Rightarrow> ('i, 'p) item list \<Rightarrow> ('i, 'p) nested list \<times> ('i, 'p) item list" where
  "attempt e items = snd (loop_result e items)"

definition calculateBounds :: "('i, 'p) nested list \<Rightarrow> rat \<times> rat" where
  "calculateBounds placements =
     foldl (\<lambda>(maxX, maxY) p.
              (max maxX (fadd (px p) (pwidth p)), max maxY (fadd (py p) (pheight p))))
       (0, 0) placements"

text \<open>
  The engine \<^verbatim>\<open>nest\<close> builds for the retry (lines 65 to 75): it goes through the
  constructor again.
\<close>

definition expandedEngine :: "engine \<Rightarrow> ('i, 'p) nested list \<Rightarrow> engine" where
  "expandedEngine e placements =
     (let bounds = calculateBounds placements;
          expandedWidth = max (targetWidth e) (fadd (fst bounds) 100);
          expandedHeight = max (targetHeight e) (fadd (snd bounds) 100)
      in NestingEngine
           \<lparr> opt_spacing = Some (spacing e),
             opt_allowRotation = Some (allowRotation e),
             opt_targetWidth = Some expandedWidth,
             opt_targetHeight = Some expandedHeight \<rparr>)"

text \<open>
  \<^verbatim>\<open>nest\<close> calls itself on the expanded engine with no bound on the depth, so it is
  a partial function: \<open>None\<close> is the call that never returns. The item list is a list:
  the \<^verbatim>\<open>null\<close> argument, which returns the empty result as the empty list does, is
  left out.
\<close>

partial_function (option) nest ::
  "engine \<Rightarrow> ('i, 'p) item list \<Rightarrow> ('i, 'p) nested list option" where
  "nest e items =
     (if items = [] then Some []
      else case attempt e items of (placements, unplacedItems) \<Rightarrow>
        if unplacedItems \<noteq> [] \<and> placements \<noteq> []
        then nest (expandedEngine e placements) items
        else Some placements)"

declare nest.simps [code]

section \<open>Notions the properties are stated with\<close>

text \<open>
  A free rectangle admits a footprint \<open>w \<times> h\<close> when \<^verbatim>\<open>w <= rect.width && h <= rect.height\<close>;
  its score is \<^verbatim>\<open>Math.min(rect.width - w, rect.height - h)\<close>.
\<close>

definition fits :: "rect \<Rightarrow> rat \<Rightarrow> rat \<Rightarrow> bool" where
  "fits r w h \<longleftrightarrow> w \<le> rect_width r \<and> h \<le> rect_height r"

definition shortSide :: "rect \<Rightarrow> rat \<Rightarrow> rat \<Rightarrow> rat" where
  "shortSide r w h = min (fsub (rect_width r) w) (fsub (rect_height r) h)"

text \<open>
  The rectangle at index \<open>i\<close> is the best-short-side-fit choice: it admits the footprint, no
  admitting rectangle has a smaller score, and every admitting rectangle before it has a
  strictly larger one.
\<close>

definition chosen :: "rect list \<Rightarrow> rat \<Rightarrow> rat \<Rightarrow> nat \<Rightarrow> bool" where
  "chosen rs w h i \<longleftrightarrow>
     i < length rs \<and> fits (rs ! i) w h \<and>
     (\<forall>j<length rs. fits (rs ! j) w h \<longrightarrow> shortSide (rs ! i) w h \<le> shortSide (rs ! j) w h) \<and>
     (\<forall>j<i. fits (rs ! j) w h \<longrightarrow> shortSide (rs ! i) w h < shortSide (rs ! j) w h)"

text \<open>
  Geometry, in exact arithmetic on the numbers the code holds: two rectangles overlap
  when their interiors meet; a rectangle lies inside the region \<open>[0, W] \<times> [0, H]\<close>, or
  within another rectangle; a list of rectangles is pairwise disjoint.
\<close>

definition overlap :: "rect \<Rightarrow> rect \<Rightarrow> bool" where
  "overlap a b \<longleftrightarrow>
     rect_x a < rect_x b + rect_width b \<and> rect_x b < rect_x a + rect_width a \<and>
     rect_y a < rect_y b + rect_height b \<and> rect_y b < rect_y a + rect_height a"

definition inside :: "rect \<Rightarrow> rat \<Rightarrow> rat \<Rightarrow> bool" where
  "inside r W H \<longleftrightarrow>
     0 \<le> rect_x r \<and> 0 \<le> rect_y r \<and> rect_x r + rect_width r \<le> W \<and> rect_y r + rect_height r \<le> H"

definition rect_in :: "rect \<Rightarrow> rect \<Rightarrow> bool" where
  "rect_in a b \<longleftrightarrow>
     rect_x b \<le> rect_x a \<and> rect_y b \<le> rect_y a \<and>
     rect_x a + rect_width a \<le> rect_x b + rect_width b \<and>
     rect_y a + rect_height a \<le> rect_y b + rect_height b"

definition pairwise_disjoint :: "rect list \<Rightarrow> bool" where
  "pairwise_disjoint rs \<longleftrightarrow> sorted_wrt (\<lambda>a b. \<not> overlap a b) rs"

text \<open>
  The padded footprint of a placement: \<open>(width + spacing, height + spacing)\<close> at its
  corner, in exact arithmetic.
\<close>

definition footprint :: "rat \<Rightarrow> ('i, 'z) placement_scheme \<Rightarrow> rect" where
  "footprint s p =
     \<lparr> rect_x = px p, rect_y = py p, rect_width = pwidth p + s, rect_height = pheight p + s \<rparr>"

text \<open>
  A placement stems from an item: same identifier and payload, the item's size as given,
  or swapped when the placement is marked rotated, which needs rotation to be allowed and
  the item not to be square.
\<close>

definition origin :: "bool \<Rightarrow> ('i, 'p) item \<Rightarrow> ('i, 'p) nested \<Rightarrow> bool" where
  "origin allow it p \<longleftrightarrow>
     pid p = item_id it \<and> originalItem p = item_originalItem it \<and>
     (if rotated p
      then allow \<and> item_width it \<noteq> item_height it \<and>
           pwidth p = item_height it \<and> pheight p = item_width it
      else pwidth p = item_width it \<and> pheight p = item_height it)"

text \<open>A sequence of \<^verbatim>\<open>insert\<close> calls on one packer.\<close>

definition run_inserts :: "packer \<Rightarrow> (rat \<times> rat \<times> 'i) list \<Rightarrow> packer" where
  "run_inserts p calls = foldl (\<lambda>q (width, height, ident). snd (packer_insert q width height ident)) p calls"

text \<open>
  The run of \<^verbatim>\<open>nest\<close> as a relation, one rule for each \<^verbatim>\<open>return\<close> of the source:
  \<open>nest_run e items e' result\<close> holds when the call on the engine \<open>e\<close> returns
  \<open>result\<close>, and the attempt that produced it ran on the engine \<open>e'\<close>.
\<close>

inductive nest_run ::
  "engine \<Rightarrow> ('i, 'p) item list \<Rightarrow> engine \<Rightarrow> ('i, 'p) nested list \<Rightarrow> bool" where
  empty: "nest_run e [] e []"
| final: "items \<noteq> [] \<Longrightarrow> attempt e items = (placements, unplacedItems) \<Longrightarrow>
          \<not> (unplacedItems \<noteq> [] \<and> placements \<noteq> []) \<Longrightarrow>
          nest_run e items e placements"
| retry: "items \<noteq> [] \<Longrightarrow> attempt e items = (placements, unplacedItems) \<Longrightarrow>
          unplacedItems \<noteq> [] \<and> placements \<noteq> [] \<Longrightarrow>
          nest_run (expandedEngine e placements) items e' result \<Longrightarrow>
          nest_run e items e' result"

text \<open>
  Where the arithmetic of the code is exact. A number is whole when it is an integer, and
  exact when it is an integer of magnitude at most \<open>2^53 = 9007199254740992\<close>: every such
  number is a double. A side of an item suits the spacing \<open>s\<close> when it is whole and its
  padded length lies between \<open>0\<close> and \<open>2^53\<close>. An engine is exact when its spacing is
  whole and not negative and its region has exact sides.
\<close>

definition whole :: "rat \<Rightarrow> bool" where
  "whole q \<longleftrightarrow> of_int \<lfloor>q\<rfloor> = q"

definition exact :: "rat \<Rightarrow> bool" where
  "exact q \<longleftrightarrow> whole q \<and> \<bar>q\<bar> \<le> 9007199254740992"

definition exact_side :: "rat \<Rightarrow> rat \<Rightarrow> bool" where
  "exact_side s q \<longleftrightarrow> whole q \<and> 0 \<le> q + s \<and> q + s \<le> 9007199254740992"

definition exact_item :: "rat \<Rightarrow> ('i, 'p) item \<Rightarrow> bool" where
  "exact_item s it \<longleftrightarrow> exact_side s (item_width it) \<and> exact_side s (item_height it)"

definition exact_call :: "rat \<Rightarrow> rat \<times> rat \<times> 'i \<Rightarrow> bool" where
  "exact_call s c \<longleftrightarrow> exact_side s (fst c) \<and> exact_side s (fst (snd c))"

definition exact_engine :: "engine \<Rightarrow> bool" where
  "exact_engine e \<longleftrightarrow>
     whole (spacing e) \<and> 0 \<le> spacing e \<and> exact (targetWidth e) \<and> exact (targetHeight e)"

section \<open>Invariants\<close>

text \<open>The invariant of the search loop after \<open>n\<close> rounds.\<close>

definition search_inv :: "rect list \<Rightarrow> rat \<Rightarrow> rat \<Rightarrow> nat \<Rightarrow> best \<Rightarrow> bool" where
  "search_inv rs w h n b \<longleftrightarrow>
     (case bestRect b of
        None \<Rightarrow> bestShortSideFit b = None \<and> (\<forall>j<n. \<not> fits (rs ! j) w h)
      | Some r \<Rightarrow>
          (\<exists>i<n. bestIndex b = int i \<and> r = rs ! i \<and> fits r w h \<and>
             bestShortSideFit b = Some (shortSide r w h) \<and>
             (\<forall>j<n. fits (rs ! j) w h \<longrightarrow> shortSide r w h \<le> shortSide (rs ! j) w h) \<and>
             (\<forall>j<i. fits (rs ! j) w h \<longrightarrow> shortSide r w h < shortSide (rs ! j) w h)))"

text \<open>
  A rectangle on the integer grid: whole corner and sides, the corner not negative, and
  the far corner of magnitude at most \<open>2^53\<close>.
\<close>

definition grid :: "rect \<Rightarrow> bool" where
  "grid r \<longleftrightarrow>
     whole (rect_x r) \<and> whole (rect_y r) \<and> whole (rect_width r) \<and> whole (rect_height r) \<and>
     0 \<le> rect_x r \<and> 0 \<le> rect_y r \<and>
     \<bar>rect_x r + rect_width r\<bar> \<le> 9007199254740992 \<and>
     \<bar>rect_y r + rect_height r\<bar> \<le> 9007199254740992"

text \<open>
  The invariant of the packer on the grid, with the footprints handed out so far: free
  rectangles and footprints are pairwise disjoint, disjoint from each other, and inside
  the bin, and the free rectangles are on the grid.
\<close>

definition packer_inv :: "packer \<Rightarrow> rect list \<Rightarrow> bool" where
  "packer_inv p used \<longleftrightarrow>
     pairwise_disjoint (freeRectangles p) \<and>
     pairwise_disjoint used \<and>
     (\<forall>u\<in>set used. \<forall>r\<in>set (freeRectangles p). \<not> overlap u r) \<and>
     (\<forall>r\<in>set (freeRectangles p). inside r (binWidth p) (binHeight p)) \<and>
     (\<forall>u\<in>set used. inside u (binWidth p) (binHeight p)) \<and>
     (\<forall>r\<in>set (freeRectangles p). grid r)"

text \<open>
  The rectangles \<^verbatim>\<open>splitFreeNode\<close> pushes, as the code computes them and in exact
  arithmetic, and the rectangle the item takes.
\<close>

definition remainders :: "rect \<Rightarrow> rat \<Rightarrow> rat \<Rightarrow> rect list" where
  "remainders r w h =
     (if fsub (rect_width r) w > 0
      then [\<lparr> rect_x = fadd (rect_x r) w, rect_y = rect_y r,
               rect_width = fsub (rect_width r) w, rect_height = rect_height r \<rparr>]
      else []) @
     (if fsub (rect_height r) h > 0
      then [\<lparr> rect_x = rect_x r, rect_y = fadd (rect_y r) h,
               rect_width = w, rect_height = fsub (rect_height r) h \<rparr>]
      else [])"

definition exact_remainders :: "rect \<Rightarrow> rat \<Rightarrow> rat \<Rightarrow> rect list" where
  "exact_remainders r w h =
     (if rect_width r - w > 0
      then [\<lparr> rect_x = rect_x r + w, rect_y = rect_y r,
               rect_width = rect_width r - w, rect_height = rect_height r \<rparr>]
      else []) @
     (if rect_height r - h > 0
      then [\<lparr> rect_x = rect_x r, rect_y = rect_y r + h,
               rect_width = w, rect_height = rect_height r - h \<rparr>]
      else [])"

definition used_rect :: "rect \<Rightarrow> rat \<Rightarrow> rat \<Rightarrow> rect" where
  "used_rect r w h = \<lparr> rect_x = rect_x r, rect_y = rect_y r, rect_width = w, rect_height = h \<rparr>"

text \<open>The invariants of the placement loop of \<^verbatim>\<open>nest\<close>.\<close>

definition attempt_inv ::
  "engine \<Rightarrow> ('i, 'p) item list \<Rightarrow> packer \<times> ('i, 'p) nested list \<times> ('i, 'p) item list \<Rightarrow> bool" where
  "attempt_inv e items st \<longleftrightarrow>
     (case st of (p, placements, unplacedItems) \<Rightarrow>
        packer_inv p (map (footprint (spacing e)) placements) \<and>
        pk_spacing p = spacing e \<and> binWidth p = targetWidth e \<and> binHeight p = targetHeight e)"

definition origin_inv ::
  "engine \<Rightarrow> ('i, 'p) item list \<Rightarrow> packer \<times> ('i, 'p) nested list \<times> ('i, 'p) item list \<Rightarrow> bool" where
  "origin_inv e items st \<longleftrightarrow>
     (case st of (p, placements, unplacedItems) \<Rightarrow>
        (\<forall>q\<in>set placements. \<exists>it\<in>set items. origin (allowRotation e) it q))"

section \<open>Concrete engines, items and packers\<close>

definition mk_item :: "nat \<Rightarrow> rat \<Rightarrow> rat \<Rightarrow> (nat, unit) item" where
  "mk_item i w h = \<lparr> item_id = i, item_width = w, item_height = h, item_originalItem = () \<rparr>"

definition mk_nested :: "nat \<Rightarrow> rat \<Rightarrow> rat \<Rightarrow> rat \<Rightarrow> rat \<Rightarrow> bool \<Rightarrow> (nat, unit) nested" where
  "mk_nested i x y w h r =
     \<lparr> pid = i, px = x, py = y, pwidth = w, pheight = h, originalItem = (), rotated = r \<rparr>"

definition default_engine :: engine where
  "default_engine =
     NestingEngine \<lparr> opt_spacing = None, opt_allowRotation = None,
                     opt_targetWidth = None, opt_targetHeight = None \<rparr>"

definition grown_engine :: engine where
  "grown_engine =
     NestingEngine \<lparr> opt_spacing = Some 10, opt_allowRotation = Some False,
                     opt_targetWidth = Some 1050, opt_targetHeight = Some 1050 \<rparr>"

definition growing_items :: "(nat, unit) item list" where
  "growing_items = [mk_item 1 950 950, mk_item 2 50 50]"

definition growing_result :: "(nat, unit) nested list" where
  "growing_result = [mk_nested 1 0 0 950 950 False, mk_nested 2 960 0 50 50 False]"

definition rotating_engine :: engine where
  "rotating_engine =
     NestingEngine \<lparr> opt_spacing = Some 10, opt_allowRotation = Some True,
                     opt_targetWidth = Some 100, opt_targetHeight = Some 100 \<rparr>"

definition rotating_items :: "(nat, unit) item list" where
  "rotating_items = [mk_item 1 30 80, mk_item 2 85 5, mk_item 3 20 20]"

definition rotating_result :: "(nat, unit) nested list" where
  "rotating_result =
     [mk_nested 1 0 0 30 80 False, mk_nested 2 40 0 5 85 True, mk_nested 3 55 0 20 20 False]"

definition stuck_engine :: engine where
  "stuck_engine =
     NestingEngine \<lparr> opt_spacing = Some 10, opt_allowRotation = Some False,
                     opt_targetWidth = Some 1000, opt_targetHeight = Some 1000 \<rparr>"

definition stuck_items :: "(nat, unit) item list" where
  "stuck_items = [mk_item 1 600 600, mk_item 2 600 600]"

definition zero_spacing_options :: options where
  "zero_spacing_options =
     \<lparr> opt_spacing = Some 0, opt_allowRotation = Some False,
       opt_targetWidth = Some 1000, opt_targetHeight = Some 1000 \<rparr>"

definition pair_items :: "(nat, unit) item list" where
  "pair_items = [mk_item 1 100 50, mk_item 2 100 50]"

definition half_packer :: packer where
  "half_packer = snd (packer_insert (GuillouinePacker 100 100 0) 50 50 (1::nat))"

definition three_calls :: "(rat \<times> rat \<times> nat) list" where
  "three_calls = [(50, 50, 1), (20, 20, 2), (30, 40, 3)]"

text \<open>
  Inputs with fractional sizes. The items \<^verbatim>\<open>890.4 x 764.2\<close>, \<^verbatim>\<open>89.6 x 990\<close>,
  \<^verbatim>\<open>281.7 x 11.4\<close> and \<^verbatim>\<open>598.7 x 2.7\<close> for the default engine, and what \<^verbatim>\<open>nest\<close>
  returns for them.
\<close>

definition drift_items :: "(nat, unit) item list" where
  "drift_items =
     [mk_item 1 (rd (8904 / 10)) (rd (7642 / 10)), mk_item 2 (rd (896 / 10)) 990,
      mk_item 3 (rd (2817 / 10)) (rd (114 / 10)), mk_item 4 (rd (5987 / 10)) (rd (27 / 10))]"

definition drift_result :: "(nat, unit) nested list" where
  "drift_result =
     [mk_nested 1 0 0 (rd (8904 / 10)) (rd (7642 / 10)) False,
      mk_nested 2 (rd (9004 / 10)) 0 (rd (896 / 10)) 990 False,
      mk_nested 3 0 (rd (7742 / 10)) (rd (2817 / 10)) (rd (114 / 10)) False,
      mk_nested 4 (rd (2917 / 10)) (rd (7742 / 10)) (rd (5987 / 10)) (rd (27 / 10)) False]"

text \<open>
  The engine with spacing \<^verbatim>\<open>1e-15\<close> on the region \<open>100 \<times> 100\<close>, the items
  \<^verbatim>\<open>48 x 20.1\<close>, \<^verbatim>\<open>6.3 x 72.7\<close> and \<^verbatim>\<open>6.3 x 7.2\<close>, and what \<^verbatim>\<open>nest\<close> returns
  for them: the third placement is at \<^verbatim>\<open>y = 92.80000000000001\<close>.
\<close>

definition tiny_engine :: engine where
  "tiny_engine =
     NestingEngine \<lparr> opt_spacing = Some (rd (1 / 10 ^ 15)), opt_allowRotation = Some False,
                     opt_targetWidth = Some 100, opt_targetHeight = Some 100 \<rparr>"

definition tiny_items :: "(nat, unit) item list" where
  "tiny_items =
     [mk_item 1 48 (rd (201 / 10)), mk_item 2 (rd (63 / 10)) (rd (727 / 10)),
      mk_item 3 (rd (63 / 10)) (rd (72 / 10))]"

definition tiny_result :: "(nat, unit) nested list" where
  "tiny_result =
     [mk_nested 1 0 0 48 (rd (201 / 10)) False,
      mk_nested 2 0 (rd (201 / 10)) (rd (63 / 10)) (rd (727 / 10)) False,
      mk_nested 3 0 (rd (9280000000000001 / 10 ^ 14)) (rd (63 / 10)) (rd (72 / 10)) False]"

text \<open>The calls \<^verbatim>\<open>insert(7.7, 14.5)\<close>, \<^verbatim>\<open>insert(1.9, 36)\<close> and what they leave free.\<close>

definition drift_calls :: "(rat \<times> rat \<times> nat) list" where
  "drift_calls = [(rd (77 / 10), rd (145 / 10), 1), (rd (19 / 10), 36, 2)]"

definition drift_free :: "rect list" where
  "drift_free =
     [\<lparr> rect_x = rd (77 / 10), rect_y = 0, rect_width = rd (923 / 10), rect_height = 100 \<rparr>,
      \<lparr> rect_x = rd (19 / 10), rect_y = rd (145 / 10),
        rect_width = rd (5800000000000001 / 10 ^ 15), rect_height = rd (855 / 10) \<rparr>,
      \<lparr> rect_x = 0, rect_y = rd (505 / 10), rect_width = rd (19 / 10),
        rect_height = rd (495 / 10) \<rparr>]"

section \<open>Rounding\<close>

text \<open>
  The doubles of \<^verbatim>\<open>7.7\<close>, of \<^verbatim>\<open>0.1 + 0.2\<close> (\<^verbatim>\<open>0.30000000000000004\<close>) and of
  \<^verbatim>\<open>7.7 - 1.9\<close> (\<^verbatim>\<open>5.800000000000001\<close>), and ties above \<open>2^53\<close>.
\<close>

lemma rd_checks:
  "rd (77 / 10) = 8669429282688205 / 2 ^ 50"
  "fadd (rd (1 / 10)) (rd (2 / 10)) = 5404319552844596 / 2 ^ 54"
  "fsub (rd (77 / 10)) (rd (19 / 10)) = 1632554864921805 / 2 ^ 48"
  "rd 9007199254740993 = 9007199254740992"
  "rd 9007199254740995 = 9007199254740996"
  "rd (- 9007199254740993) = - 9007199254740992"
  by code_simp+

text \<open>Rounding is exact on integers up to \<open>2^53\<close>.\<close>

lemma log2_nonneg: "0 \<le> log2 n"
  by (induction n rule: log2.induct) (subst log2.simps, simp)

lemma log2_less: "n < 2 ^ Suc k \<Longrightarrow> log2 n \<le> int k"
proof (induction k arbitrary: n)
  case 0
  then show ?case by (subst log2.simps) simp
next
  case (Suc k)
  show ?case
  proof (cases "n < 2")
    case True
    then show ?thesis by (subst log2.simps) simp
  next
    case False
    from Suc.prems have "n div 2 < 2 ^ Suc k" by simp
    then have "log2 (n div 2) \<le> int k" by (rule Suc.IH)
    with False show ?thesis by (subst log2.simps) simp
  qed
qed

lemma nearest_even_of_int [simp]: "nearest_even (of_int m) = m"
  by (simp add: nearest_even_def)

lemma pow2_nonpos: "k \<le> 0 \<Longrightarrow> pow2 k * of_int (2 ^ nat (- k)) = 1"
  by (cases "k = 0") (simp_all add: pow2_def)

lemma expo_of_int:
  assumes "n \<noteq> 0"
  shows "expo (of_int n) \<le> log2 \<bar>n\<bar>"
    and "expo (of_int n) = log2 \<bar>n\<bar> \<Longrightarrow> pow2 (log2 \<bar>n\<bar>) \<le> of_int \<bar>n\<bar>"
proof -
  have "quotient_of (of_int \<bar>n\<bar> :: rat) = (\<bar>n\<bar>, 1)"
    by (simp add: of_int_rat quotient_of_Fract)
  moreover have "\<bar>of_int n :: rat\<bar> = of_int \<bar>n\<bar>" by simp
  ultimately have q: "quotient_of \<bar>of_int n :: rat\<bar> = (\<bar>n\<bar>, 1)" by (simp only:)
  have l1: "log2 1 = 0" by (subst log2.simps) simp
  have e: "expo (of_int n) =
      (if pow2 (log2 \<bar>n\<bar>) \<le> (of_int \<bar>n\<bar> :: rat) then log2 \<bar>n\<bar> else log2 \<bar>n\<bar> - 1)"
    unfolding expo_def q by (simp add: Let_def l1)
  show "expo (of_int n) \<le> log2 \<bar>n\<bar>"
    unfolding e by simp
  show "pow2 (log2 \<bar>n\<bar>) \<le> of_int \<bar>n\<bar>" if "expo (of_int n) = log2 \<bar>n\<bar>"
  proof (rule ccontr)
    assume "\<not> pow2 (log2 \<bar>n\<bar>) \<le> (of_int \<bar>n\<bar> :: rat)"
    then have "expo (of_int n) = log2 \<bar>n\<bar> - 1" unfolding e by simp
    with that show False by linarith
  qed
qed

lemma rd_of_int:
  assumes "\<bar>n\<bar> \<le> 9007199254740992"
  shows "rd (of_int n) = of_int n"
proof (cases "n = 0")
  case True
  then show ?thesis by (simp add: rd_def)
next
  case False
  define k where "k = max (expo (of_int n) - 52) (- 1074)"
  have rd: "rd (of_int n) = of_int (nearest_even (of_int n / pow2 k)) * pow2 k"
    using False by (simp add: rd_def k_def Let_def)
  have "\<bar>n\<bar> < 2 ^ Suc 53" using assms by simp
  then have d: "log2 \<bar>n\<bar> \<le> 53" using log2_less[of "\<bar>n\<bar>" 53] by simp
  show ?thesis
  proof (cases "k \<le> 0")
    case True
    define j where "j = nat (- k)"
    have u: "pow2 k = 1 / of_int (2 ^ j)"
      using True by (cases "k = 0") (simp_all add: pow2_def j_def)
    have "of_int n / pow2 k = (of_int (n * 2 ^ j) :: rat)"
      by (simp add: u)
    then have "nearest_even (of_int n / pow2 k) = n * 2 ^ j"
      by (simp only: nearest_even_of_int)
    then show ?thesis by (simp add: rd u)
  next
    case pos: False
    with expo_of_int(1)[OF False] d have e: "expo (of_int n) = 53" "log2 \<bar>n\<bar> = 53"
      by (simp_all add: k_def)
    then have k: "k = 1" by (simp add: k_def)
    from expo_of_int(2)[OF False] e have "pow2 53 \<le> (of_int \<bar>n\<bar> :: rat)" by simp
    then have "(9007199254740992 :: rat) \<le> of_int \<bar>n\<bar>" by (simp add: pow2_def)
    then have "9007199254740992 \<le> \<bar>n\<bar>" by linarith
    with assms have "\<bar>n\<bar> = 9007199254740992" by simp
    have r2: "rd (of_int n) = of_int (nearest_even (of_int n / 2)) * 2"
      using rd k by (simp add: pow2_def)
    from \<open>\<bar>n\<bar> = 9007199254740992\<close> consider "n = 9007199254740992" | "n = - 9007199254740992"
      by linarith
    then have "(of_int n :: rat) / 2 = of_int (n div 2)"
      by cases simp_all
    then have "nearest_even (of_int n / 2) = n div 2"
      by (simp only: nearest_even_of_int)
    with r2 \<open>(of_int n :: rat) / 2 = of_int (n div 2)\<close> show ?thesis
      by (simp only:)
  qed
qed

lemma rd_exact: "exact q \<Longrightarrow> rd q = q"
proof -
  assume e: "exact q"
  then have q: "of_int \<lfloor>q\<rfloor> = q" unfolding exact_def whole_def by blast
  from e have "\<bar>q\<bar> \<le> 9007199254740992" unfolding exact_def by blast
  with q have "\<bar>of_int \<lfloor>q\<rfloor> :: rat\<bar> \<le> 9007199254740992" by (simp only:)
  then have "\<bar>\<lfloor>q\<rfloor>\<bar> \<le> 9007199254740992" by linarith
  from rd_of_int[OF this] q show ?thesis by (simp only:)
qed

lemma whole_Ints: "whole q \<longleftrightarrow> q \<in> \<int>"
  unfolding whole_def by (metis Ints_cases Ints_of_int of_int_floor_cancel)

lemma whole_arith:
  assumes "whole a" "whole b"
  shows "whole (a + b)" "whole (a - b)"
  using assms by (simp_all add: whole_Ints)

lemma whole_0 [simp]: "whole 0"
  by (simp add: whole_Ints)

lemma fadd_exact:
  "whole a \<Longrightarrow> whole b \<Longrightarrow> \<bar>a + b\<bar> \<le> 9007199254740992 \<Longrightarrow> fadd a b = a + b"
  unfolding fadd_def by (rule rd_exact) (simp add: exact_def whole_arith)

lemma fsub_exact:
  "whole a \<Longrightarrow> whole b \<Longrightarrow> \<bar>a - b\<bar> \<le> 9007199254740992 \<Longrightarrow> fsub a b = a - b"
  unfolding fsub_def by (rule rd_exact) (simp add: exact_def whole_arith)

section \<open>The search loop\<close>

lemma search_step_eq:
  "search_step rs w h b i =
     (if fits (rs ! i) w h \<and> below (shortSide (rs ! i) w h) (bestShortSideFit b)
      then \<lparr> bestRect = Some (rs ! i), bestIndex = int i,
             bestShortSideFit = Some (shortSide (rs ! i) w h) \<rparr>
      else b)"
  by (simp add: search_step_def fits_def shortSide_def Let_def)

lemma search_inv_step:
  assumes "search_inv rs w h n b"
  shows "search_inv rs w h (Suc n) (search_step rs w h b n)"
proof (cases "fits (rs ! n) w h")
  case False
  then have "search_step rs w h b n = b"
    by (simp add: search_step_eq)
  with assms False show ?thesis
    by (auto simp: search_inv_def less_Suc_eq split: option.splits)
next
  case True
  show ?thesis
  proof (cases "bestRect b")
    case None
    with assms have "bestShortSideFit b = None" "\<forall>j<n. \<not> fits (rs ! j) w h"
      by (simp_all add: search_inv_def)
    with True show ?thesis
      by (auto simp: search_inv_def search_step_eq below_def less_Suc_eq)
  next
    case (Some r)
    with assms obtain i where i: "i < n" "bestIndex b = int i" "r = rs ! i" "fits r w h"
      "bestShortSideFit b = Some (shortSide r w h)"
      "\<forall>j<n. fits (rs ! j) w h \<longrightarrow> shortSide r w h \<le> shortSide (rs ! j) w h"
      "\<forall>j<i. fits (rs ! j) w h \<longrightarrow> shortSide r w h < shortSide (rs ! j) w h"
      by (auto simp: search_inv_def)
    show ?thesis
    proof (cases "shortSide (rs ! n) w h < shortSide r w h")
      case True
      with \<open>fits (rs ! n) w h\<close> i(5) have
        "search_step rs w h b n =
           \<lparr> bestRect = Some (rs ! n), bestIndex = int n,
             bestShortSideFit = Some (shortSide (rs ! n) w h) \<rparr>"
        by (simp add: search_step_eq below_def)
      moreover have "\<forall>j<n. fits (rs ! j) w h \<longrightarrow> shortSide (rs ! n) w h < shortSide (rs ! j) w h"
        using i(6) True by fastforce
      ultimately show ?thesis using \<open>fits (rs ! n) w h\<close>
        by (auto simp: search_inv_def less_Suc_eq intro!: exI[of _ n])
    next
      case False
      with i(5) have "search_step rs w h b n = b"
        by (simp add: search_step_eq below_def)
      moreover have "\<forall>j<Suc n. fits (rs ! j) w h \<longrightarrow> shortSide r w h \<le> shortSide (rs ! j) w h"
        using i(6) False by (auto simp: less_Suc_eq)
      ultimately show ?thesis using Some i
        by (auto simp: search_inv_def intro!: exI[of _ i])
    qed
  qed
qed

lemma search_inv_prefix:
  "search_inv rs w h n (foldl (search_step rs w h)
      \<lparr> bestRect = None, bestIndex = -1, bestShortSideFit = None \<rparr> [0 ..< n])"
proof (induction n)
  case 0
  show ?case by (simp add: search_inv_def)
next
  case (Suc n)
  then show ?case by (simp add: search_inv_step)
qed

lemma search_inv_search: "search_inv rs w h (length rs) (search rs w h)"
  unfolding search_def by (rule search_inv_prefix)

lemma chosen_unique: "chosen rs w h i \<Longrightarrow> chosen rs w h j \<Longrightarrow> i = j"
  unfolding chosen_def by (metis linorder_neqE_nat not_less)

lemma search_None:
  "bestRect (search rs w h) = None \<longleftrightarrow> (\<forall>r\<in>set rs. \<not> fits r w h)"
proof (cases "bestRect (search rs w h)")
  case None
  with search_inv_search[of rs w h] show ?thesis
    by (auto simp: search_inv_def in_set_conv_nth)
next
  case (Some r)
  with search_inv_search[of rs w h] obtain i where "i < length rs" "fits (rs ! i) w h"
    by (auto simp: search_inv_def)
  then have "\<exists>r\<in>set rs. fits r w h" using nth_mem by blast
  with Some show ?thesis by simp
qed

lemma search_Some:
  assumes "bestRect (search rs w h) = Some r"
  shows "\<exists>i. chosen rs w h i \<and> r = rs ! i \<and> bestIndex (search rs w h) = int i"
  using search_inv_search[of rs w h] assms
  by (auto simp: search_inv_def chosen_def)

lemma search_chosen:
  assumes "chosen rs w h i"
  shows "bestRect (search rs w h) = Some (rs ! i) \<and> bestIndex (search rs w h) = int i"
proof (cases "bestRect (search rs w h)")
  case None
  with assms show ?thesis by (auto simp: search_None chosen_def)
next
  case (Some r)
  then obtain j where "chosen rs w h j" "r = rs ! j" "bestIndex (search rs w h) = int j"
    using search_Some by blast
  with assms Some show ?thesis using chosen_unique by blast
qed

section \<open>Rectangles\<close>

lemma overlap_sym: "overlap a b \<longleftrightarrow> overlap b a"
  by (auto simp: overlap_def)

lemma overlap_mono:
  "overlap a b \<Longrightarrow> rect_in a a' \<Longrightarrow> rect_in b b' \<Longrightarrow> overlap a' b'"
  by (auto simp: overlap_def rect_in_def)

lemma rect_in_refl: "rect_in a a"
  by (simp add: rect_in_def)

lemma inside_mono: "inside r W H \<Longrightarrow> rect_in a r \<Longrightarrow> inside a W H"
  by (auto simp: inside_def rect_in_def)

lemma pairwise_disjoint_nth:
  "pairwise_disjoint rs \<longleftrightarrow>
     (\<forall>i<length rs. \<forall>j<length rs. i \<noteq> j \<longrightarrow> \<not> overlap (rs ! i) (rs ! j))"
proof
  assume "pairwise_disjoint rs"
  then have *: "\<And>i j. i < j \<Longrightarrow> j < length rs \<Longrightarrow> \<not> overlap (rs ! i) (rs ! j)"
    by (simp add: pairwise_disjoint_def sorted_wrt_iff_nth_less)
  show "\<forall>i<length rs. \<forall>j<length rs. i \<noteq> j \<longrightarrow> \<not> overlap (rs ! i) (rs ! j)"
  proof (intro allI impI)
    fix i j assume "i < length rs" "j < length rs" "i \<noteq> j"
    then consider "i < j" | "j < i" by linarith
    then show "\<not> overlap (rs ! i) (rs ! j)"
      using * \<open>i < length rs\<close> \<open>j < length rs\<close> overlap_sym by cases blast+
  qed
next
  assume "\<forall>i<length rs. \<forall>j<length rs. i \<noteq> j \<longrightarrow> \<not> overlap (rs ! i) (rs ! j)"
  then show "pairwise_disjoint rs"
    by (auto simp: pairwise_disjoint_def sorted_wrt_iff_nth_less)
qed

lemma pairwise_disjoint_snoc:
  "pairwise_disjoint (rs @ [r]) \<longleftrightarrow> pairwise_disjoint rs \<and> (\<forall>a\<in>set rs. \<not> overlap a r)"
  by (auto simp: pairwise_disjoint_def sorted_wrt_append)

lemma set_splice1: "set (splice1 i xs) \<subseteq> set xs"
  by (auto simp: splice1_def dest: in_set_takeD in_set_dropD)

lemma splice1_parts:
  assumes "pairwise_disjoint rs" "i < length rs"
  shows "pairwise_disjoint (splice1 i rs)"
    and "\<forall>a\<in>set (splice1 i rs). \<not> overlap a (rs ! i)"
proof -
  have "rs = take i rs @ rs ! i # drop (Suc i) rs"
    using assms(2) by (rule id_take_nth_drop)
  with assms(1) have *: "sorted_wrt (\<lambda>a b. \<not> overlap a b) (take i rs @ rs ! i # drop (Suc i) rs)"
    by (simp add: pairwise_disjoint_def)
  then show "pairwise_disjoint (splice1 i rs)"
    by (simp add: pairwise_disjoint_def splice1_def sorted_wrt_append)
  from * show "\<forall>a\<in>set (splice1 i rs). \<not> overlap a (rs ! i)"
    using overlap_sym by (auto simp: splice1_def sorted_wrt_append)
qed

lemma set_merge: "set (freeRectangles (mergeRectangles p)) \<subseteq> set (freeRectangles p)"
  by (auto simp: mergeRectangles_def in_set_enumerate_eq)

lemma pairwise_disjoint_merge:
  assumes "pairwise_disjoint (freeRectangles p)"
  shows "pairwise_disjoint (freeRectangles (mergeRectangles p))"
proof -
  let ?P = "\<lambda>a b. \<not> overlap a b"
  have "sorted_wrt ?P (map snd (enumerate 0 (freeRectangles p)))"
    using assms by (simp add: pairwise_disjoint_def)
  then have "sorted_wrt (\<lambda>x y. ?P (snd x) (snd y)) (enumerate 0 (freeRectangles p))"
    unfolding sorted_wrt_map .
  then have "sorted_wrt (\<lambda>x y. ?P (snd x) (snd y))
      (filter (merge_keeps (freeRectangles p)) (enumerate 0 (freeRectangles p)))"
    by (rule sorted_wrt_filter)
  then show ?thesis
    by (simp add: pairwise_disjoint_def mergeRectangles_def sorted_wrt_map)
qed

lemma merge_fields:
  "binWidth (mergeRectangles p) = binWidth p"
  "binHeight (mergeRectangles p) = binHeight p"
  "pk_spacing (mergeRectangles p) = pk_spacing p"
  by (simp_all add: mergeRectangles_def)

section \<open>The packer\<close>

lemma packer_inv_merge:
  assumes "packer_inv p used"
  shows "packer_inv (mergeRectangles p) used"
  using assms set_merge[of p] pairwise_disjoint_merge[of p]
  unfolding packer_inv_def merge_fields by blast

lemma splitFreeNode_eq:
  "splitFreeNode p r w h i =
     mergeRectangles (p \<lparr> freeRectangles := splice1 i (freeRectangles p) @ remainders r w h \<rparr>)"
  by (simp add: splitFreeNode_def remainders_def Let_def)

text \<open>On the grid the code computes the remainders exactly.\<close>

lemma grid_bounds:
  assumes "grid r"
  shows "whole (rect_x r)" "whole (rect_y r)" "whole (rect_width r)" "whole (rect_height r)"
    "0 \<le> rect_x r" "0 \<le> rect_y r"
    "rect_x r + rect_width r \<le> 9007199254740992" "rect_y r + rect_height r \<le> 9007199254740992"
  using assms by (auto simp: grid_def)

lemma remainders_exact:
  assumes g: "grid r" and w: "whole w" "0 \<le> w" "w \<le> rect_width r"
    and h: "whole h" "0 \<le> h" "h \<le> rect_height r"
  shows "remainders r w h = exact_remainders r w h"
proof -
  note b = grid_bounds[OF g]
  have 1: "fsub (rect_width r) w = rect_width r - w"
    using b w by (intro fsub_exact) auto
  have 2: "fsub (rect_height r) h = rect_height r - h"
    using b h by (intro fsub_exact) auto
  have 3: "fadd (rect_x r) w = rect_x r + w"
    using b w by (intro fadd_exact) auto
  have 4: "fadd (rect_y r) h = rect_y r + h"
    using b h by (intro fadd_exact) auto
  show ?thesis by (simp add: remainders_def exact_remainders_def 1 2 3 4)
qed

lemma exact_remainders_grid:
  assumes g: "grid r" and w: "whole w" "0 \<le> w" "w \<le> rect_width r"
    and h: "whole h" "0 \<le> h" "h \<le> rect_height r"
    and a: "a \<in> set (exact_remainders r w h)"
  shows "grid a"
proof -
  note b = grid_bounds[OF g]
  have ww: "whole (rect_x r + w)" "whole (rect_width r - w)"
    "whole (rect_y r + h)" "whole (rect_height r - h)"
    using b w h by (simp_all add: whole_arith)
  from a consider
    "a = \<lparr> rect_x = rect_x r + w, rect_y = rect_y r,
           rect_width = rect_width r - w, rect_height = rect_height r \<rparr>"
  | "a = \<lparr> rect_x = rect_x r, rect_y = rect_y r + h,
           rect_width = w, rect_height = rect_height r - h \<rparr>"
    by (auto simp: exact_remainders_def split: if_splits)
  then show ?thesis
  proof cases
    case 1
    then show ?thesis using g ww w h by (auto simp: grid_def)
  next
    case 2
    then show ?thesis using g ww w h by (auto simp: grid_def)
  qed
qed

lemma remainders_contained:
  "0 \<le> w \<Longrightarrow> 0 \<le> h \<Longrightarrow> w \<le> rect_width r \<Longrightarrow> a \<in> set (exact_remainders r w h) \<Longrightarrow>
     rect_in a r"
  by (auto simp: exact_remainders_def rect_in_def split: if_splits)

lemma remainders_disjoint: "pairwise_disjoint (exact_remainders r w h)"
  by (auto simp: exact_remainders_def pairwise_disjoint_def overlap_def)

lemma remainders_free:
  "a \<in> set (exact_remainders r w h) \<Longrightarrow> \<not> overlap (used_rect r w h) a"
  by (auto simp: exact_remainders_def used_rect_def overlap_def split: if_splits)

lemma used_rect_contained:
  "w \<le> rect_width r \<Longrightarrow> h \<le> rect_height r \<Longrightarrow> rect_in (used_rect r w h) r"
  by (auto simp: used_rect_def rect_in_def)

lemma packer_inv_split:
  assumes inv: "packer_inv p used"
    and i: "i < length (freeRectangles p)" and r: "r = freeRectangles p ! i"
    and w: "0 \<le> w" "w \<le> rect_width r" and h: "0 \<le> h" "h \<le> rect_height r"
    and wh: "whole w" "whole h"
  shows "packer_inv (splitFreeNode p r w h i) (used @ [used_rect r w h])"
proof -
  let ?rs = "freeRectangles p"
  let ?U = "used_rect r w h"
  have rin: "r \<in> set ?rs" using i r by simp
  have pd: "pairwise_disjoint ?rs" and pu: "pairwise_disjoint used"
    and ur: "\<And>u x. u \<in> set used \<Longrightarrow> x \<in> set ?rs \<Longrightarrow> \<not> overlap u x"
    and fin: "\<And>x. x \<in> set ?rs \<Longrightarrow> inside x (binWidth p) (binHeight p)"
    and uin: "\<And>u. u \<in> set used \<Longrightarrow> inside u (binWidth p) (binHeight p)"
    and gr: "\<And>x. x \<in> set ?rs \<Longrightarrow> grid x"
    using inv by (auto simp: packer_inv_def)
  have g: "grid r" using gr rin by blast
  have req: "remainders r w h = exact_remainders r w h"
    using g wh w h by (intro remainders_exact) auto
  have Uc: "rect_in ?U r" using w h by (simp add: used_rect_contained)
  have Rc: "\<And>a. a \<in> set (exact_remainders r w h) \<Longrightarrow> rect_in a r"
    using w h by (simp add: remainders_contained)
  have sp: "pairwise_disjoint (splice1 i ?rs)"
    and sr: "\<And>a. a \<in> set (splice1 i ?rs) \<Longrightarrow> \<not> overlap a r"
    using splice1_parts[OF pd i] r by auto
  have ss: "\<And>a. a \<in> set (splice1 i ?rs) \<Longrightarrow> a \<in> set ?rs"
    using set_splice1 by fastforce
  have 1: "pairwise_disjoint (splice1 i ?rs @ exact_remainders r w h)"
    unfolding pairwise_disjoint_def sorted_wrt_append
    using sp remainders_disjoint[of r w h] sr Rc overlap_mono rect_in_refl
    unfolding pairwise_disjoint_def by blast
  have 2: "pairwise_disjoint (used @ [?U])"
    unfolding pairwise_disjoint_snoc
    using pu ur[OF _ rin] Uc overlap_mono rect_in_refl by blast
  have 3: "\<not> overlap u x"
    if "u \<in> set (used @ [?U])" "x \<in> set (splice1 i ?rs @ exact_remainders r w h)" for u x
  proof (cases "u = ?U")
    case True
    show ?thesis
    proof (cases "x \<in> set (exact_remainders r w h)")
      case True
      with \<open>u = ?U\<close> show ?thesis by (simp add: remainders_free)
    next
      case False
      with that have "x \<in> set (splice1 i ?rs)" by simp
      then have "\<not> overlap x r" by (rule sr)
      then have "\<not> overlap r x" using overlap_sym by blast
      with Uc \<open>u = ?U\<close> show ?thesis using overlap_mono rect_in_refl by blast
    qed
  next
    case False
    with that have u: "u \<in> set used" by simp
    show ?thesis
    proof (cases "x \<in> set (exact_remainders r w h)")
      case True
      then have "rect_in x r" by (rule Rc)
      with ur[OF u rin] show ?thesis using overlap_mono rect_in_refl by blast
    next
      case False
      with that have "x \<in> set (splice1 i ?rs)" by simp
      with ur[OF u] ss show ?thesis by blast
    qed
  qed
  have 4: "inside x (binWidth p) (binHeight p)"
    if "x \<in> set (splice1 i ?rs @ exact_remainders r w h)" for x
    using that fin ss Rc rin inside_mono by (metis Un_iff set_append)
  have 5: "inside u (binWidth p) (binHeight p)" if "u \<in> set (used @ [?U])" for u
    using that uin Uc fin[OF rin] inside_mono by auto
  have 6: "grid x" if "x \<in> set (splice1 i ?rs @ exact_remainders r w h)" for x
    using that gr ss exact_remainders_grid[OF g wh(1) w wh(2) h] by auto
  have "packer_inv (p \<lparr> freeRectangles := splice1 i ?rs @ exact_remainders r w h \<rparr>) (used @ [?U])"
    unfolding packer_inv_def using 1 2 3 4 5 6 by simp
  then show ?thesis
    unfolding splitFreeNode_eq req by (rule packer_inv_merge)
qed

lemma packer_insert_None:
  assumes "\<forall>r\<in>set (freeRectangles p). \<not> fits r (fadd width (pk_spacing p)) (fadd height (pk_spacing p))"
  shows "packer_insert p width height ident = (None, p)"
  using assms by (simp add: packer_insert_def Let_def search_None[symmetric])

lemma packer_insert_chosen:
  assumes "chosen (freeRectangles p) (fadd width (pk_spacing p)) (fadd height (pk_spacing p)) i"
  shows "packer_insert p width height ident =
           (Some \<lparr> pid = ident, px = rect_x (freeRectangles p ! i),
                   py = rect_y (freeRectangles p ! i), pwidth = width, pheight = height \<rparr>,
            splitFreeNode p (freeRectangles p ! i) (fadd width (pk_spacing p)) (fadd height (pk_spacing p)) i)"
  using search_chosen[OF assms] by (simp add: packer_insert_def Let_def)

lemma packer_insert_cases:
  obtains (none) "\<forall>r\<in>set (freeRectangles p). \<not> fits r (fadd width (pk_spacing p)) (fadd height (pk_spacing p))"
      "packer_insert p width height ident = (None, p)"
  | (some) i where "chosen (freeRectangles p) (fadd width (pk_spacing p)) (fadd height (pk_spacing p)) i"
      "packer_insert p width height ident =
           (Some \<lparr> pid = ident, px = rect_x (freeRectangles p ! i),
                   py = rect_y (freeRectangles p ! i), pwidth = width, pheight = height \<rparr>,
            splitFreeNode p (freeRectangles p ! i) (fadd width (pk_spacing p)) (fadd height (pk_spacing p)) i)"
proof (cases "bestRect (search (freeRectangles p) (fadd width (pk_spacing p)) (fadd height (pk_spacing p)))")
  case None
  then have a: "\<forall>r\<in>set (freeRectangles p). \<not> fits r (fadd width (pk_spacing p)) (fadd height (pk_spacing p))"
    by (simp add: search_None)
  show ?thesis by (rule none[OF a packer_insert_None[OF a]])
next
  case (Some r)
  then obtain i where c: "chosen (freeRectangles p) (fadd width (pk_spacing p)) (fadd height (pk_spacing p)) i"
    using search_Some by blast
  show ?thesis by (rule some[OF c packer_insert_chosen[OF c]])
qed

lemma splitFreeNode_fields:
  "binWidth (splitFreeNode p r w h i) = binWidth p"
  "binHeight (splitFreeNode p r w h i) = binHeight p"
  "pk_spacing (splitFreeNode p r w h i) = pk_spacing p"
  by (simp_all add: splitFreeNode_eq merge_fields)

lemma packer_insert_fields:
  assumes "packer_insert p width height ident = (res, p')"
  shows "binWidth p' = binWidth p" "binHeight p' = binHeight p" "pk_spacing p' = pk_spacing p"
  using assms by (cases rule: packer_insert_cases[of p width height ident];
      auto simp: splitFreeNode_fields)+

lemma packer_insert_placement:
  assumes "packer_insert p width height ident = (Some pl, p')"
  shows "pid pl = ident" "pwidth pl = width" "pheight pl = height"
  using assms by (cases rule: packer_insert_cases[of p width height ident]; auto)+

lemma exact_side_fadd:
  assumes "exact_side s q" "whole s"
  shows "fadd q s = q + s" "whole (q + s)" "0 \<le> q + s"
  using assms by (auto simp: exact_side_def whole_arith intro!: fadd_exact)

lemma packer_insert_inv:
  assumes inv: "packer_inv p used"
    and s: "whole (pk_spacing p)"
    and sides: "exact_side (pk_spacing p) width" "exact_side (pk_spacing p) height"
    and ins: "packer_insert p width height ident = (Some pl, p')"
  shows "packer_inv p' (used @ [footprint (pk_spacing p) pl])"
proof (cases rule: packer_insert_cases[of p width height ident])
  case none
  with ins show ?thesis by simp
next
  case (some i)
  let ?r = "freeRectangles p ! i"
  let ?w = "width + pk_spacing p" and ?h = "height + pk_spacing p"
  note ew = exact_side_fadd[OF sides(1) s] and eh = exact_side_fadd[OF sides(2) s]
  from some(2) ins have pl: "pl = \<lparr> pid = ident, px = rect_x ?r, py = rect_y ?r,
      pwidth = width, pheight = height \<rparr>" and p': "p' = splitFreeNode p ?r ?w ?h i"
    by (simp_all add: ew(1) eh(1))
  have fp: "footprint (pk_spacing p) pl = used_rect ?r ?w ?h"
    by (simp add: pl footprint_def used_rect_def)
  from some(1) have "i < length (freeRectangles p)" "?w \<le> rect_width ?r" "?h \<le> rect_height ?r"
    by (simp_all add: chosen_def fits_def ew(1) eh(1))
  with inv ew eh show ?thesis
    unfolding fp p' by (intro packer_inv_split) simp_all
qed

lemma packer_inv_new:
  assumes "exact W" "exact H"
  shows "packer_inv (GuillouinePacker W H s) []"
  using assms
  by (simp add: packer_inv_def GuillouinePacker_def pairwise_disjoint_def inside_def grid_def
      exact_def)

section \<open>One attempt\<close>

lemma foldl_invariant:
  assumes "P s" "\<And>s x. P s \<Longrightarrow> x \<in> set xs \<Longrightarrow> P (f s x)"
  shows "P (foldl f s xs)"
  using assms by (induction xs arbitrary: s) simp_all

lemma footprint_extend [simp]:
  "footprint s (placement.extend pl m) = footprint s pl"
  by (simp add: footprint_def placement.defs)

lemma place_item_cases:
  obtains (plain) pl p1 where
      "packer_insert p (item_width it) (item_height it) (item_id it) = (Some pl, p1)"
      "place_item e (p, ps, un) it =
         (p1, ps @ [placement.extend pl (nested.fields (item_originalItem it) False)], un)"
  | (turned) pl p2 where
      "allowRotation e" "item_width it \<noteq> item_height it"
      "packer_insert p (item_width it) (item_height it) (item_id it) = (None, p)"
      "packer_insert p (item_height it) (item_width it) (item_id it) = (Some pl, p2)"
      "place_item e (p, ps, un) it =
         (p2, ps @ [placement.extend pl (nested.fields (item_originalItem it) True)], un)"
  | (unplaced)
      "place_item e (p, ps, un) it = (p, ps, un @ [it])"
proof (cases rule: packer_insert_cases[of p "item_width it" "item_height it" "item_id it"])
  case (some i)
  then show ?thesis using plain by (simp add: place_item_def)
next
  case none
  note first = none(2)
  show ?thesis
  proof (cases "allowRotation e \<and> item_width it \<noteq> item_height it")
    case False
    with first show ?thesis using unplaced by (auto simp: place_item_def)
  next
    case True
    show ?thesis
    proof (cases rule: packer_insert_cases[of p "item_height it" "item_width it" "item_id it"])
      case none
      with first True show ?thesis using unplaced by (simp add: place_item_def)
    next
      case (some i)
      with first True show ?thesis using turned by (simp add: place_item_def)
    qed
  qed
qed

lemma place_item_attempt_inv:
  assumes inv: "attempt_inv e items (p, ps, un)"
    and e: "exact_engine e" and it: "exact_item (spacing e) it"
  shows "attempt_inv e items (place_item e (p, ps, un) it)"
proof -
  from inv have pinv: "packer_inv p (map (footprint (spacing e)) ps)"
    and f: "pk_spacing p = spacing e" "binWidth p = targetWidth e" "binHeight p = targetHeight e"
    by (simp_all add: attempt_inv_def)
  from e f have s: "whole (pk_spacing p)" by (simp add: exact_engine_def)
  from it f have sides: "exact_side (pk_spacing p) (item_width it)"
    "exact_side (pk_spacing p) (item_height it)"
    by (simp_all add: exact_item_def)
  show ?thesis
  proof (cases rule: place_item_cases[of p it e ps un])
    case (plain pl p1)
    from packer_insert_inv[OF pinv s sides plain(1)] f
    have "packer_inv p1 (map (footprint (spacing e)) ps @ [footprint (spacing e) pl])" by simp
    with packer_insert_fields[OF plain(1)] f show ?thesis
      by (simp add: attempt_inv_def plain(2))
  next
    case (turned pl p2)
    from packer_insert_inv[OF pinv s sides(2,1) turned(4)] f
    have "packer_inv p2 (map (footprint (spacing e)) ps @ [footprint (spacing e) pl])" by simp
    with packer_insert_fields[OF turned(4)] f show ?thesis
      by (simp add: attempt_inv_def turned(5))
  next
    case unplaced
    with inv show ?thesis by (simp add: attempt_inv_def)
  qed
qed

lemma place_item_origin_inv:
  assumes inv: "origin_inv e items (p, ps, un)" and "it \<in> set items"
  shows "origin_inv e items (place_item e (p, ps, un) it)"
proof (cases rule: place_item_cases[of p it e ps un])
  case (plain pl p1)
  have "origin (allowRotation e) it
          (placement.extend pl (nested.fields (item_originalItem it) False))"
    using packer_insert_placement[OF plain(1)]
    by (simp add: origin_def placement.defs nested.defs)
  with inv assms(2) show ?thesis by (auto simp: origin_inv_def plain(2))
next
  case (turned pl p2)
  have "origin (allowRotation e) it
          (placement.extend pl (nested.fields (item_originalItem it) True))"
    using packer_insert_placement[OF turned(4)] turned(1,2)
    by (simp add: origin_def placement.defs nested.defs)
  with inv assms(2) show ?thesis by (auto simp: origin_inv_def turned(5))
next
  case unplaced
  with inv show ?thesis by (simp add: origin_inv_def)
qed

lemma set_sortedItems [simp]: "set (sortedItems items) = set items"
  by (simp add: sortedItems_def)

lemma attempt_inv_loop:
  assumes "exact_engine e" "\<forall>it\<in>set items. exact_item (spacing e) it"
  shows "attempt_inv e items (loop_result e items)"
  unfolding loop_result_def
proof (rule foldl_invariant)
  show "attempt_inv e items (GuillouinePacker (targetWidth e) (targetHeight e) (spacing e), [], [])"
    using packer_inv_new[of "targetWidth e" "targetHeight e" "spacing e"] assms(1)
    by (simp add: attempt_inv_def GuillouinePacker_def exact_engine_def)
next
  fix s :: "packer \<times> ('a, 'b) nested list \<times> ('a, 'b) item list" and x
  assume "attempt_inv e items s" "x \<in> set (sortedItems items)"
  then show "attempt_inv e items (place_item e s x)"
    using assms place_item_attempt_inv[of e items _ _ _ x] by (cases s) auto
qed

lemma origin_inv_loop: "origin_inv e items (loop_result e items)"
  unfolding loop_result_def
proof (rule foldl_invariant)
  show "origin_inv e items (GuillouinePacker (targetWidth e) (targetHeight e) (spacing e), [], [])"
    by (simp add: origin_inv_def)
next
  fix s :: "packer \<times> ('a, 'b) nested list \<times> ('a, 'b) item list" and x
  assume "origin_inv e items s" "x \<in> set (sortedItems items)"
  then show "origin_inv e items (place_item e s x)"
    using place_item_origin_inv[of e items _ _ _ x] by (cases s) auto
qed

lemma attempt_loop: "attempt e items = snd (loop_result e items)"
  by (simp add: attempt_def)

lemma attempt_disjoint:
  assumes "exact_engine e" "\<forall>it\<in>set items. exact_item (spacing e) it"
  shows "pairwise_disjoint (map (footprint (spacing e)) (fst (attempt e items)))"
    and "\<forall>q\<in>set (fst (attempt e items)).
           inside (footprint (spacing e) q) (targetWidth e) (targetHeight e)"
  using attempt_inv_loop[OF assms]
  by (auto simp: attempt_loop attempt_inv_def packer_inv_def split: prod.splits)

lemma attempt_origin:
  "\<forall>q\<in>set (fst (attempt e items)). \<exists>it\<in>set items. origin (allowRotation e) it q"
  using origin_inv_loop[of e items]
  by (auto simp: attempt_loop origin_inv_def split: prod.splits)

section \<open>The recursion of the engine\<close>

text \<open>The relation and the partial function describe the same runs.\<close>

lemma nest_run_nest:
  assumes "nest_run e items e' ps"
  shows "nest e items = Some ps"
  using assms
proof (induction rule: nest_run.induct)
  case (empty e)
  show ?case by (subst nest.simps) simp
next
  case (final items e placements unplacedItems)
  then show ?case by (subst nest.simps) auto
next
  case (retry items e placements unplacedItems e' result)
  then show ?case by (subst nest.simps) simp
qed

lemma nest_nest_run:
  assumes "nest e items = Some ps"
  shows "\<exists>e'. nest_run e items e' ps"
proof (rule nest.raw_induct[where P = "\<lambda>e items ps. \<exists>e'. nest_run e items e' ps", OF _ assms])
  fix nest' :: "engine \<Rightarrow> ('a, 'b) item list \<Rightarrow> ('a, 'b) nested list option"
  fix e items ps
  assume IH: "\<And>e items ps. nest' e items = Some ps \<Longrightarrow> \<exists>e'. nest_run e items e' ps"
  assume step: "(if items = [] then Some []
      else case attempt e items of
           (placements, unplacedItems) \<Rightarrow>
             if unplacedItems \<noteq> [] \<and> placements \<noteq> []
             then nest' (expandedEngine e placements) items
             else Some placements) = Some ps"
  show "\<exists>e'. nest_run e items e' ps"
  proof (cases "items = []")
    case True
    with step show ?thesis using nest_run.empty by auto
  next
    case False
    obtain placements unplacedItems where a: "attempt e items = (placements, unplacedItems)"
      by (cases "attempt e items")
    show ?thesis
    proof (cases "unplacedItems \<noteq> [] \<and> placements \<noteq> []")
      case True
      with step False a have "nest' (expandedEngine e placements) items = Some ps" by simp
      then obtain e' where "nest_run (expandedEngine e placements) items e' ps"
        using IH by blast
      with False a True show ?thesis using nest_run.retry by blast
    next
      case no: False
      with step False a have "ps = placements" by auto
      with False a no show ?thesis using nest_run.final by blast
    qed
  qed
qed

lemma nest_run_functional:
  assumes "nest_run e items e1 ps1"
  shows "nest_run e items e2 ps2 \<Longrightarrow> e1 = e2 \<and> ps1 = ps2"
  using assms
proof (induction arbitrary: e2 ps2 rule: nest_run.induct)
  case (empty e)
  from empty.prems show ?case by (cases rule: nest_run.cases) simp_all
next
  case (final items e placements unplacedItems)
  from final.prems show ?case
  proof (cases rule: nest_run.cases)
    case empty
    with final.hyps show ?thesis by simp
  next
    case (final unplacedItems')
    with final.hyps show ?thesis by simp
  next
    case (retry placements' unplacedItems')
    with final.hyps show ?thesis by simp
  qed
next
  case (retry items e placements unplacedItems e' result)
  from retry.prems show ?case
  proof (cases rule: nest_run.cases)
    case empty
    with retry.hyps show ?thesis by simp
  next
    case (final unplacedItems')
    with retry.hyps show ?thesis by simp
  next
    case inner: (retry placements' unplacedItems')
    with retry.hyps have "placements' = placements" by simp
    with inner(4) retry.IH show ?thesis by blast
  qed
qed

lemma nest_run_last:
  assumes "nest_run e items e' ps"
  shows "(items = [] \<and> ps = []) \<or> (items \<noteq> [] \<and> ps = fst (attempt e' items))"
  using assms by (induction rule: nest_run.induct) auto

lemma expandedEngine_fields:
  "allowRotation (expandedEngine e ps) = allowRotation e"
  "spacing (expandedEngine e ps) = (if spacing e = 0 then 10 else spacing e)"
  by (simp_all add: expandedEngine_def NestingEngine_def or_num_def or_bool_def Let_def)

lemma nest_run_engine:
  assumes "nest_run e items e' ps"
  shows "allowRotation e' = allowRotation e"
    and "0 \<le> spacing e \<Longrightarrow> spacing e \<le> spacing e'"
    and "spacing e \<noteq> 0 \<Longrightarrow> spacing e' = spacing e"
  using assms by (induction rule: nest_run.induct) (auto simp: expandedEngine_fields)

text \<open>
  An attempt that places some items, leaves others, and whose expanded engine is the
  engine itself starts a recursion that never returns.
\<close>

lemma nest_run_not_stuck:
  assumes "nest_run e items e' ps"
  shows "items \<noteq> [] \<Longrightarrow> attempt e items = (placements, unplacedItems) \<Longrightarrow>
    unplacedItems \<noteq> [] \<Longrightarrow> placements \<noteq> [] \<Longrightarrow> expandedEngine e placements \<noteq> e"
  using assms
proof (induction rule: nest_run.induct)
  case (empty e)
  then show ?case by simp
next
  case (final items e placements' unplacedItems')
  then show ?case by simp
next
  case (retry items e placements' unplacedItems' e' result)
  from retry.prems(2) retry.hyps(2) have eq: "placements' = placements" by simp
  show ?case
  proof
    assume stuck: "expandedEngine e placements = e"
    from retry.IH[unfolded eq stuck, OF retry.prems] stuck show False by simp
  qed
qed

lemma nest_diverges:
  assumes "items \<noteq> []" "attempt e items = (placements, unplacedItems)"
    "unplacedItems \<noteq> []" "placements \<noteq> []" "expandedEngine e placements = e"
  shows "nest e items = None"
proof (cases "nest e items")
  case (Some ps)
  then obtain e' where "nest_run e items e' ps" using nest_nest_run by blast
  from nest_run_not_stuck[OF this assms(1-4)] assms(5) show ?thesis by simp
qed simp

lemma nest_origin:
  assumes "nest e items = Some ps"
  shows "\<forall>p\<in>set ps. \<exists>it\<in>set items. origin (allowRotation e) it p"
proof -
  from assms obtain e' where run: "nest_run e items e' ps"
    using nest_nest_run by blast
  from nest_run_last[OF run] attempt_origin[of e' items] nest_run_engine(1)[OF run]
  show ?thesis by auto
qed

section \<open>Sequences of insertions\<close>

lemma run_inserts_snoc:
  "run_inserts p (calls @ [(width, height, ident)]) =
     snd (packer_insert (run_inserts p calls) width height ident)"
  by (simp add: run_inserts_def)

lemma run_inserts_inv:
  assumes "exact W" "exact H" "whole s" "\<forall>c\<in>set calls. exact_call s c"
  shows "\<exists>used. packer_inv (run_inserts (GuillouinePacker W H s) calls) used \<and>
           pk_spacing (run_inserts (GuillouinePacker W H s) calls) = s \<and>
           binWidth (run_inserts (GuillouinePacker W H s) calls) = W \<and>
           binHeight (run_inserts (GuillouinePacker W H s) calls) = H"
  using assms(4)
proof (induction calls rule: rev_induct)
  case Nil
  show ?case using packer_inv_new[OF assms(1,2), of s]
    by (auto simp: run_inserts_def GuillouinePacker_def)
next
  case (snoc c calls)
  obtain width height ident where c: "c = (width, height, ident)" by (cases c)
  let ?p = "run_inserts (GuillouinePacker W H s) calls"
  from snoc obtain used where inv: "packer_inv ?p used" and
    f: "pk_spacing ?p = s" "binWidth ?p = W" "binHeight ?p = H"
    by auto
  from snoc.prems c have sides: "exact_side (pk_spacing ?p) width" "exact_side (pk_spacing ?p) height"
    by (simp_all add: f exact_call_def)
  from assms(3) have s: "whole (pk_spacing ?p)" by (simp add: f)
  obtain res p' where ins: "packer_insert ?p width height ident = (res, p')"
    by (cases "packer_insert ?p width height ident")
  have "\<exists>used'. packer_inv p' used'"
  proof (cases res)
    case None
    with ins have "p' = ?p"
      by (cases rule: packer_insert_cases[of ?p width height ident]) auto
    with inv show ?thesis by blast
  next
    case (Some pl)
    with ins have "packer_insert ?p width height ident = (Some pl, p')" by simp
    from packer_insert_inv[OF inv s sides this] show ?thesis by blast
  qed
  with packer_insert_fields[OF ins] f ins show ?case
    by (simp add: c run_inserts_snoc)
qed

section \<open>The spacing the constructor stores\<close>

lemma NestingEngine_spacing:
  "spacing (NestingEngine opts) =
     (case opt_spacing opts of None \<Rightarrow> 10 | Some s \<Rightarrow> if s = 0 then 10 else s)"
  by (simp add: NestingEngine_def or_num_def)

lemma NestingEngine_spacing_nonneg:
  assumes "case opt_spacing opts of None \<Rightarrow> True | Some s \<Rightarrow> 0 \<le> s"
  shows "0 < spacing (NestingEngine opts)"
  using assms by (simp add: NestingEngine_spacing split: option.splits)

section \<open>Concrete runs\<close>

lemma growing_nest: "nest default_engine growing_items = Some growing_result"
  by code_simp

lemma rotating_nest: "nest rotating_engine rotating_items = Some rotating_result"
  by code_simp

lemma growing_run: "nest_run default_engine growing_items grown_engine growing_result"
proof (rule nest_run.retry)
  show "growing_items \<noteq> []" by (simp add: growing_items_def)
  show "attempt default_engine growing_items = ([mk_nested 1 0 0 950 950 False], [mk_item 2 50 50])"
    by code_simp
  show "[mk_item 2 50 50] \<noteq> [] \<and> [mk_nested 1 0 0 950 950 False] \<noteq> []" by simp
  have "expandedEngine default_engine [mk_nested 1 0 0 950 950 False] = grown_engine"
    by code_simp
  moreover have "nest_run grown_engine growing_items grown_engine growing_result"
  proof (rule nest_run.final)
    show "growing_items \<noteq> []" by (simp add: growing_items_def)
    show "attempt grown_engine growing_items = (growing_result, [])" by code_simp
    show "\<not> ([] \<noteq> [] \<and> growing_result \<noteq> [])" by simp
  qed
  ultimately show "nest_run (expandedEngine default_engine [mk_nested 1 0 0 950 950 False])
      growing_items grown_engine growing_result" by simp
qed

lemma grown_exact: "exact_engine grown_engine"
  by code_simp

lemma growing_exact: "\<forall>it\<in>set growing_items. exact_item (spacing grown_engine) it"
proof -
  have "list_all (exact_item (spacing grown_engine)) growing_items" by code_simp
  then show ?thesis by (simp add: list_all_iff)
qed

lemma half_packer_eq:
  "half_packer =
     \<lparr> binWidth = 100, binHeight = 100, pk_spacing = 0,
       freeRectangles =
         [\<lparr> rect_x = 50, rect_y = 0, rect_width = 50, rect_height = 100 \<rparr>,
          \<lparr> rect_x = 0, rect_y = 50, rect_width = 50, rect_height = 50 \<rparr>] \<rparr>"
  by code_simp

lemma drift_nest: "nest default_engine drift_items = Some drift_result"
  by code_simp

lemma tiny_run: "nest_run tiny_engine tiny_items tiny_engine tiny_result"
proof (rule nest_run.final)
  show "tiny_items \<noteq> []" by (simp add: tiny_items_def)
  show "attempt tiny_engine tiny_items = (tiny_result, [])" by code_simp
  show "\<not> ([] \<noteq> [] \<and> tiny_result \<noteq> [])" by simp
qed

lemma drift_free_eq:
  "freeRectangles (run_inserts (GuillouinePacker 100 100 0) drift_calls) = drift_free"
  by code_simp

section \<open>Properties of the engine\<close>

text \<open>
  The claim C1 says that no two placements of one result overlap, for every item list and
  configuration. With fractional sizes the code rounds each sum and difference on its
  own, and the claim fails: for the default engine and the items \<^verbatim>\<open>890.4 x 764.2\<close>,
  \<^verbatim>\<open>89.6 x 990\<close>, \<^verbatim>\<open>281.7 x 11.4\<close>, \<^verbatim>\<open>598.7 x 2.7\<close> the second item is placed at
  \<^verbatim>\<open>x = 900.4\<close> and the fourth at \<^verbatim>\<open>x = 291.7\<close>, and the padded footprint of the fourth
  ends beyond \<^verbatim>\<open>900.4\<close>.
\<close>

theorem nest_no_overlap_counterexample:
  "nest default_engine drift_items = Some drift_result \<and>
   overlap (footprint (spacing default_engine) (drift_result ! 1))
           (footprint (spacing default_engine) (drift_result ! 3))"
proof -
  have "overlap (footprint (spacing default_engine) (drift_result ! 1))
           (footprint (spacing default_engine) (drift_result ! 3))"
    by code_simp
  with drift_nest show ?thesis by simp
qed

text \<open>
  C1, amended. When \<^verbatim>\<open>nest\<close> returns, the attempt that produced the result (the last
  of the run, \<open>nest_run\<close>) ran on an exact engine (whole
  spacing that is not negative, region sides whole and of magnitude at most \<open>2^53\<close>) and
  every item has whole sides whose padded lengths lie between \<open>0\<close> and \<open>2^53\<close>, no two
  placements that one call of \<^verbatim>\<open>nest\<close> returns overlap: the padded footprints
  \<open>(width + spacing, height + spacing)\<close> at \<open>(x, y)\<close> of two placements at different
  positions of the result are disjoint.
\<close>

theorem nest_no_overlap_exact:
  assumes "nest e items = Some ps"
    and "nest_run e items e' ps"
    and "exact_engine e'"
    and "\<forall>it\<in>set items. exact_item (spacing e') it"
  shows "\<forall>i<length ps. \<forall>j<length ps. i \<noteq> j \<longrightarrow>
           \<not> overlap (footprint (spacing e') (ps ! i)) (footprint (spacing e') (ps ! j))"
proof -
  have "pairwise_disjoint (map (footprint (spacing e')) ps)"
    using nest_run_last[OF assms(2)] attempt_disjoint(1)[OF assms(3,4)]
    by (auto simp: pairwise_disjoint_def)
  then show ?thesis
    by (simp add: pairwise_disjoint_nth)
qed

theorem nest_no_overlap_exact_witness:
  "nest default_engine growing_items = Some growing_result \<and>
   nest_run default_engine growing_items grown_engine growing_result \<and>
   exact_engine grown_engine \<and>
   list_all (exact_item (spacing grown_engine)) growing_items \<and>
   \<not> overlap (footprint (spacing grown_engine) (growing_result ! 0))
              (footprint (spacing grown_engine) (growing_result ! 1))"
proof -
  have "length growing_result = 2" by (simp add: growing_result_def)
  with nest_no_overlap_exact[OF growing_nest growing_run grown_exact growing_exact]
    growing_nest growing_run grown_exact growing_exact
  show ?thesis by (simp add: list_all_iff)
qed

text \<open>
  C2. The claim: whenever \<^verbatim>\<open>nest\<close> recurses, the expanded region is strictly larger in
  width or height than the current one, so the recursion ends. On the default region
  \<open>1000 \<times> 1000\<close> with two items \<open>600 \<times> 600\<close> the code does otherwise: the attempt places
  the first item and leaves the second, the expanded engine is the engine itself
  (\<open>max 1000 (600 + 100) = 1000\<close>), and the call never returns.
\<close>

theorem nest_expansion_stuck:
  "attempt stuck_engine stuck_items = ([mk_nested 1 0 0 600 600 False], [mk_item 2 600 600]) \<and>
   expandedEngine stuck_engine [mk_nested 1 0 0 600 600 False] = stuck_engine \<and>
   nest stuck_engine stuck_items = None"
proof -
  have a: "attempt stuck_engine stuck_items =
      ([mk_nested 1 0 0 600 600 False], [mk_item 2 600 600])" by code_simp
  have b: "expandedEngine stuck_engine [mk_nested 1 0 0 600 600 False] = stuck_engine"
    by code_simp
  have "stuck_items \<noteq> []" by (simp add: stuck_items_def)
  from nest_diverges[OF this a _ _ b] a b show ?thesis by simp
qed

text \<open>
  C3. The claim: a spacing \<open>s \<ge> 0\<close> given to the constructor is the margin the engine
  uses, and spacing \<open>0\<close> leaves no gap. The code does otherwise at \<open>0\<close>: the constructor
  reads \<^verbatim>\<open>options.spacing || 10\<close>, so the engine built with spacing \<open>0\<close> has spacing
  \<open>10\<close>, and two items \<open>100 \<times> 50\<close> come out at \<open>y = 0\<close> and \<open>y = 60\<close>, a gap of \<open>10\<close>.
  A packer built with spacing \<open>0\<close> puts the second item at \<open>y = 50\<close>.
\<close>

theorem constructor_spacing_zero:
  "spacing (NestingEngine zero_spacing_options) = 10 \<and>
   nest (NestingEngine zero_spacing_options) pair_items =
     Some [mk_nested 1 0 0 100 50 False, mk_nested 2 0 60 100 50 False] \<and>
   fst (packer_insert (snd (packer_insert (GuillouinePacker 1000 1000 0) 100 50 (1::nat)))
          100 50 (2::nat)) =
     Some \<lparr> pid = 2, px = 0, py = 50, pwidth = 100, pheight = 50 \<rparr>"
  by code_simp

text \<open>
  The claim C4 says that every placement lies inside the final region. With a spacing
  below the rounding error the claim fails: for spacing \<^verbatim>\<open>1e-15\<close>, the region
  \<open>100 \<times> 100\<close> and the items \<^verbatim>\<open>48 x 20.1\<close>, \<^verbatim>\<open>6.3 x 72.7\<close>, \<^verbatim>\<open>6.3 x 7.2\<close> the
  third item is placed at \<^verbatim>\<open>y = 92.80000000000001\<close> and ends above \<open>100\<close>.
\<close>

theorem nest_containment_counterexample:
  "nest tiny_engine tiny_items = Some tiny_result \<and>
   nest_run tiny_engine tiny_items tiny_engine tiny_result \<and>
   targetHeight tiny_engine < py (tiny_result ! 2) + pheight (tiny_result ! 2)"
proof -
  have "targetHeight tiny_engine < py (tiny_result ! 2) + pheight (tiny_result ! 2)"
    by code_simp
  with tiny_run nest_run_nest[OF tiny_run] show ?thesis by simp
qed

text \<open>
  C4, amended. When \<^verbatim>\<open>nest\<close> returns, the attempt that produced the result (the last
  of the run, \<open>nest_run\<close>) ran on an exact engine and every
  item has whole sides whose padded lengths lie between \<open>0\<close> and \<open>2^53\<close>, every
  placement that \<^verbatim>\<open>nest\<close> returns lies inside the final region: the rectangle from
  \<open>(x, y)\<close> to \<open>(x + width, y + height)\<close> is within \<open>[0, targetWidth] \<times> [0, targetHeight]\<close>
  of the engine whose attempt produced the result.
\<close>

theorem nest_containment_exact:
  assumes "nest e items = Some ps"
    and "nest_run e items e' ps"
    and "exact_engine e'"
    and "\<forall>it\<in>set items. exact_item (spacing e') it"
  shows "\<forall>p\<in>set ps. 0 \<le> px p \<and> 0 \<le> py p \<and>
           px p + pwidth p \<le> targetWidth e' \<and> py p + pheight p \<le> targetHeight e'"
proof -
  have s: "0 \<le> spacing e'" using assms(3) by (simp add: exact_engine_def)
  have "\<forall>p\<in>set ps. inside (footprint (spacing e') p) (targetWidth e') (targetHeight e')"
    using nest_run_last[OF assms(2)] attempt_disjoint(2)[OF assms(3,4)] by auto
  with s show ?thesis
    by (fastforce simp: inside_def footprint_def)
qed

theorem nest_containment_exact_witness:
  "nest default_engine growing_items = Some growing_result \<and>
   nest_run default_engine growing_items grown_engine growing_result \<and>
   exact_engine grown_engine \<and>
   list_all (exact_item (spacing grown_engine)) growing_items \<and>
   targetWidth grown_engine = 1050 \<and> targetHeight grown_engine = 1050 \<and>
   list_all (\<lambda>p. 0 \<le> px p \<and> 0 \<le> py p \<and>
      px p + pwidth p \<le> targetWidth grown_engine \<and>
      py p + pheight p \<le> targetHeight grown_engine) growing_result"
proof -
  have "targetWidth grown_engine = 1050" "targetHeight grown_engine = 1050"
    by code_simp+
  with nest_containment_exact[OF growing_nest growing_run grown_exact growing_exact]
    growing_nest growing_run grown_exact growing_exact
  show ?thesis by (simp add: list_all_iff)
qed

text \<open>
  C5. When no free rectangle admits the padded footprint, as the code computes it,
  \<^verbatim>\<open>insert\<close> returns \<^verbatim>\<open>null\<close> and leaves the packer, its free rectangles included,
  as it was.
\<close>

theorem insert_failure_no_mutation:
  assumes "\<forall>r\<in>set (freeRectangles p).
             \<not> fits r (fadd width (pk_spacing p)) (fadd height (pk_spacing p))"
  shows "packer_insert p width height ident = (None, p)"
  using assms by (rule packer_insert_None)

theorem insert_failure_no_mutation_witness:
  "list_all (\<lambda>r. \<not> fits r (fadd 60 (pk_spacing half_packer)) (fadd 60 (pk_spacing half_packer)))
     (freeRectangles half_packer) \<and>
   packer_insert half_packer 60 60 (2::nat) = (None, half_packer)"
proof -
  have "list_all (\<lambda>r. \<not> fits r (fadd 60 (pk_spacing half_packer)) (fadd 60 (pk_spacing half_packer)))
     (freeRectangles half_packer)"
    by code_simp
  then have h: "\<forall>r\<in>set (freeRectangles half_packer).
             \<not> fits r (fadd 60 (pk_spacing half_packer)) (fadd 60 (pk_spacing half_packer))"
    by (simp add: list_all_iff)
  from insert_failure_no_mutation[OF h, of 2] h show ?thesis
    by (simp add: list_all_iff)
qed

text \<open>
  C6. When some free rectangle admits the padded footprint, as the code computes it,
  \<^verbatim>\<open>insert\<close> returns a placement at the top-left corner of the best-short-side-fit
  choice: a rectangle that admits the footprint with the least
  \<open>min (rect.width - w) (rect.height - h)\<close>, the first such rectangle of the list on ties.
\<close>

theorem insert_best_short_side_fit:
  assumes "\<exists>r\<in>set (freeRectangles p).
             fits r (fadd width (pk_spacing p)) (fadd height (pk_spacing p))"
  shows "\<exists>i pl p'.
           packer_insert p width height ident = (Some pl, p') \<and>
           chosen (freeRectangles p) (fadd width (pk_spacing p)) (fadd height (pk_spacing p)) i \<and>
           px pl = rect_x (freeRectangles p ! i) \<and> py pl = rect_y (freeRectangles p ! i)"
proof (cases rule: packer_insert_cases[of p width height ident])
  case none
  with assms show ?thesis by blast
next
  case (some i)
  then show ?thesis by auto
qed

theorem insert_best_short_side_fit_witness:
  "list_ex (\<lambda>r. fits r (fadd 20 (pk_spacing half_packer)) (fadd 20 (pk_spacing half_packer)))
     (freeRectangles half_packer) \<and>
   fadd 20 (pk_spacing half_packer) = 20 \<and>
   shortSide (freeRectangles half_packer ! 0) 20 20 = 30 \<and>
   shortSide (freeRectangles half_packer ! 1) 20 20 = 30 \<and>
   (\<exists>pl p'. packer_insert half_packer 20 20 (2::nat) = (Some pl, p') \<and>
      px pl = rect_x (freeRectangles half_packer ! 0) \<and>
      py pl = rect_y (freeRectangles half_packer ! 0) \<and> px pl = 50 \<and> py pl = 0)"
proof -
  have pad: "fadd 20 (pk_spacing half_packer) = 20" by code_simp
  have f: "fits (freeRectangles half_packer ! 0) 20 20" "fits (freeRectangles half_packer ! 1) 20 20"
    by code_simp+
  have s: "shortSide (freeRectangles half_packer ! 0) 20 20 = 30"
    "shortSide (freeRectangles half_packer ! 1) 20 20 = 30"
    by code_simp+
  have len: "length (freeRectangles half_packer) = 2" by (simp add: half_packer_eq)
  have h: "\<exists>r\<in>set (freeRectangles half_packer).
             fits r (fadd 20 (pk_spacing half_packer)) (fadd 20 (pk_spacing half_packer))"
  proof -
    have "freeRectangles half_packer ! 0 \<in> set (freeRectangles half_packer)"
      using len by (intro nth_mem) simp
    with f(1) show ?thesis unfolding pad by blast
  qed
  from insert_best_short_side_fit[OF h, of 2] obtain i pl p' where
    ins: "packer_insert half_packer 20 20 (2::nat) = (Some pl, p')" and
    ch: "chosen (freeRectangles half_packer) 20 20 i" and
    at: "px pl = rect_x (freeRectangles half_packer ! i)"
        "py pl = rect_y (freeRectangles half_packer ! i)"
    unfolding pad by auto
  have "chosen (freeRectangles half_packer) 20 20 0"
    using f s len by (auto simp: chosen_def less_Suc_eq numeral_2_eq_2)
  with ch have "i = 0" by (rule chosen_unique)
  with at have "px pl = rect_x (freeRectangles half_packer ! 0)"
    "py pl = rect_y (freeRectangles half_packer ! 0)" "px pl = 50" "py pl = 0"
    by (simp_all add: half_packer_eq)
  then show ?thesis using h ins pad s by (simp add: list_ex_iff)
qed

text \<open>
  C7. Every placement that \<^verbatim>\<open>nest\<close> returns carries the size of an item of the input
  as the caller gave it, swapped when the placement is rotated: the spacing is never
  added to the reported width and height.
\<close>

theorem nest_reports_unpadded_size:
  assumes "nest e items = Some ps"
  shows "\<forall>p\<in>set ps. \<exists>it\<in>set items.
           pid p = item_id it \<and> originalItem p = item_originalItem it \<and>
           (if rotated p
            then pwidth p = item_height it \<and> pheight p = item_width it
            else pwidth p = item_width it \<and> pheight p = item_height it)"
proof
  fix p assume "p \<in> set ps"
  with nest_origin[OF assms] obtain it where "it \<in> set items" "origin (allowRotation e) it p"
    by blast
  then show "\<exists>it\<in>set items.
           pid p = item_id it \<and> originalItem p = item_originalItem it \<and>
           (if rotated p
            then pwidth p = item_height it \<and> pheight p = item_width it
            else pwidth p = item_width it \<and> pheight p = item_height it)"
    by (auto simp: origin_def split: if_splits)
qed

theorem nest_reports_unpadded_size_witness:
  "nest rotating_engine rotating_items = Some rotating_result \<and>
   spacing rotating_engine = 10 \<and>
   list_all (\<lambda>p. list_ex (\<lambda>it.
           pid p = item_id it \<and> originalItem p = item_originalItem it \<and>
           (if rotated p
            then pwidth p = item_height it \<and> pheight p = item_width it
            else pwidth p = item_width it \<and> pheight p = item_height it)) rotating_items)
     rotating_result"
proof -
  have h: "nest rotating_engine rotating_items = Some rotating_result" by (rule rotating_nest)
  have "spacing rotating_engine = 10" by code_simp
  with nest_reports_unpadded_size[OF h] h show ?thesis
    by (simp add: list_all_iff list_ex_iff)
qed

text \<open>
  C8. A placement that \<^verbatim>\<open>nest\<close> returns is marked rotated only if the engine allows
  rotation and the placement stems from an item whose width differs from its height, and
  then its width and height are the item's height and width. A square item is placed as
  if rotation were off: the rotated attempt is never made for it.
\<close>

theorem nest_rotation_legal:
  "(nest e items = Some ps \<longrightarrow>
      (\<forall>p\<in>set ps. rotated p \<longrightarrow>
         allowRotation e \<and>
         (\<exists>it\<in>set items. pid p = item_id it \<and> originalItem p = item_originalItem it \<and>
            item_width it \<noteq> item_height it \<and>
            pwidth p = item_height it \<and> pheight p = item_width it))) \<and>
   (item_width it = item_height it \<longrightarrow>
      place_item e st it = place_item (e \<lparr> allowRotation := False \<rparr>) st it)"
proof (intro conjI impI ballI)
  fix p assume "nest e items = Some ps" "p \<in> set ps" "rotated p"
  with nest_origin[of e items ps] obtain it where
    "it \<in> set items" "origin (allowRotation e) it p" by blast
  with \<open>rotated p\<close> show "\<exists>it\<in>set items. pid p = item_id it \<and> originalItem p = item_originalItem it \<and>
            item_width it \<noteq> item_height it \<and>
            pwidth p = item_height it \<and> pheight p = item_width it"
    by (auto simp: origin_def)
  from \<open>origin (allowRotation e) it p\<close> \<open>rotated p\<close> show "allowRotation e"
    by (simp add: origin_def)
next
  assume "item_width it = item_height it"
  then show "place_item e st it = place_item (e \<lparr> allowRotation := False \<rparr>) st it"
    by (simp add: place_item_def)
qed

theorem nest_rotation_legal_witness:
  "nest rotating_engine rotating_items = Some rotating_result \<and>
   rotated (rotating_result ! 1) \<and>
   allowRotation rotating_engine \<and>
   pid (rotating_result ! 1) = item_id (rotating_items ! 1) \<and>
   item_width (rotating_items ! 1) \<noteq> item_height (rotating_items ! 1) \<and>
   pwidth (rotating_result ! 1) = item_height (rotating_items ! 1) \<and>
   pheight (rotating_result ! 1) = item_width (rotating_items ! 1) \<and>
   item_width (rotating_items ! 2) = item_height (rotating_items ! 2) \<and>
   place_item rotating_engine (GuillouinePacker 10 10 10, [], []) (rotating_items ! 2) =
     place_item (rotating_engine \<lparr> allowRotation := False \<rparr>) (GuillouinePacker 10 10 10, [], [])
       (rotating_items ! 2)"
proof -
  have h: "nest rotating_engine rotating_items = Some rotating_result" by (rule rotating_nest)
  have r: "rotating_result ! 1 \<in> set rotating_result" "rotated (rotating_result ! 1)"
    by (simp_all add: rotating_result_def mk_nested_def)
  have sq: "item_width (rotating_items ! 2) = item_height (rotating_items ! 2)"
    by (simp add: rotating_items_def mk_item_def)
  note t = nest_rotation_legal[of rotating_engine rotating_items rotating_result
      "rotating_items ! 2" "(GuillouinePacker 10 10 10, [], [])"]
  from t h r have "allowRotation rotating_engine" by blast
  moreover from t sq have "place_item rotating_engine (GuillouinePacker 10 10 10, [], []) (rotating_items ! 2) =
     place_item (rotating_engine \<lparr> allowRotation := False \<rparr>) (GuillouinePacker 10 10 10, [], [])
       (rotating_items ! 2)" by blast
  moreover have "pid (rotating_result ! 1) = item_id (rotating_items ! 1)"
    "item_width (rotating_items ! 1) \<noteq> item_height (rotating_items ! 1)"
    "pwidth (rotating_result ! 1) = item_height (rotating_items ! 1)"
    "pheight (rotating_result ! 1) = item_width (rotating_items ! 1)"
    by (simp_all add: rotating_result_def rotating_items_def mk_nested_def mk_item_def)
  ultimately show ?thesis using h r(2) sq by simp
qed

text \<open>
  C9. \<^verbatim>\<open>nest\<close> is deterministic: two runs on the same engine and the same items return
  the same list of placements, from the same final engine, and that list is the value of
  the function \<open>nest\<close>.
\<close>

theorem nest_deterministic:
  assumes "nest_run e items e1 ps1" and "nest_run e items e2 ps2"
  shows "ps1 = ps2 \<and> e1 = e2 \<and> nest e items = Some ps1"
  using nest_run_functional[OF assms] nest_run_nest[OF assms(1)] by simp

theorem nest_deterministic_witness:
  "nest_run default_engine growing_items grown_engine growing_result \<and>
   nest default_engine growing_items = Some growing_result"
  using nest_deterministic[OF growing_run growing_run] growing_run by simp

text \<open>
  The claim C10 says that the free rectangles of every reachable packer are pairwise
  disjoint and lie within the bin. With fractional sizes the claim fails: after
  \<^verbatim>\<open>insert(7.7, 14.5)\<close> and \<^verbatim>\<open>insert(1.9, 36)\<close> on a bin \<open>100 \<times> 100\<close> with spacing \<open>0\<close> the
  free rectangle at \<^verbatim>\<open>x = 1.9\<close> has the width \<^verbatim>\<open>5.800000000000001\<close> and reaches into the
  free rectangle at \<^verbatim>\<open>x = 7.7\<close>.
\<close>

theorem free_rectangles_disjoint_counterexample:
  "freeRectangles (run_inserts (GuillouinePacker 100 100 0) drift_calls) = drift_free \<and>
   overlap (drift_free ! 0) (drift_free ! 1)"
proof -
  have "overlap (drift_free ! 0) (drift_free ! 1)" by code_simp
  with drift_free_eq show ?thesis by simp
qed

text \<open>
  C10, amended. For a bin with exact sides, a whole spacing and any sequence of
  \<^verbatim>\<open>insert\<close> calls whose sizes are whole with padded lengths between \<open>0\<close> and \<open>2^53\<close>,
  free rectangles at different positions of the list the calls leave do not overlap, and
  each free rectangle lies within \<open>[0, binWidth] \<times> [0, binHeight]\<close>.
\<close>

theorem free_rectangles_disjoint_exact:
  assumes "exact W" and "exact H" and "whole s"
    and "\<forall>c\<in>set calls. exact_call s c"
    and "fr = freeRectangles (run_inserts (GuillouinePacker W H s) calls)"
  shows "(\<forall>i<length fr. \<forall>j<length fr. i \<noteq> j \<longrightarrow> \<not> overlap (fr ! i) (fr ! j)) \<and>
         (\<forall>r\<in>set fr. 0 \<le> rect_x r \<and> 0 \<le> rect_y r \<and>
            rect_x r + rect_width r \<le> W \<and> rect_y r + rect_height r \<le> H)"
  using run_inserts_inv[OF assms(1-4)] assms(5)
  by (auto simp: packer_inv_def pairwise_disjoint_nth inside_def)

theorem free_rectangles_disjoint_exact_witness:
  "exact 100 \<and> whole 0 \<and> list_all (exact_call 0) three_calls \<and>
   freeRectangles (run_inserts (GuillouinePacker 100 100 0) three_calls) =
     [\<lparr> rect_x = 0, rect_y = 50, rect_width = 50, rect_height = 50 \<rparr>,
      \<lparr> rect_x = 50, rect_y = 20, rect_width = 20, rect_height = 80 \<rparr>,
      \<lparr> rect_x = 70, rect_y = 40, rect_width = 30, rect_height = 60 \<rparr>] \<and>
   \<not> overlap \<lparr> rect_x = 0, rect_y = 50, rect_width = 50, rect_height = 50 \<rparr>
              \<lparr> rect_x = 50, rect_y = 20, rect_width = 20, rect_height = 80 \<rparr> \<and>
   \<not> overlap \<lparr> rect_x = 50, rect_y = 20, rect_width = 20, rect_height = 80 \<rparr>
              \<lparr> rect_x = 70, rect_y = 40, rect_width = 30, rect_height = 60 \<rparr> \<and>
   \<not> overlap \<lparr> rect_x = 0, rect_y = 50, rect_width = 50, rect_height = 50 \<rparr>
              \<lparr> rect_x = 70, rect_y = 40, rect_width = 30, rect_height = 60 \<rparr>"
proof -
  have e: "exact 100" by code_simp
  have w: "whole 0" by simp
  have "list_all (exact_call 0) three_calls" by code_simp
  then have h: "\<forall>c\<in>set three_calls. exact_call 0 c" by (simp add: list_all_iff)
  have fr: "freeRectangles (run_inserts (GuillouinePacker 100 100 0) three_calls) =
     [\<lparr> rect_x = 0, rect_y = 50, rect_width = 50, rect_height = 50 \<rparr>,
      \<lparr> rect_x = 50, rect_y = 20, rect_width = 20, rect_height = 80 \<rparr>,
      \<lparr> rect_x = 70, rect_y = 40, rect_width = 30, rect_height = 60 \<rparr>]"
    by code_simp
  note d = free_rectangles_disjoint_exact[where calls = three_calls and s = 0 and W = 100
      and H = 100, OF e e w h refl, unfolded fr, THEN conjunct1, rule_format]
  have "length [\<lparr> rect_x = 0, rect_y = 50, rect_width = 50, rect_height = 50 \<rparr>,
      \<lparr> rect_x = 50, rect_y = 20, rect_width = 20, rect_height = 80 \<rparr>,
      \<lparr> rect_x = 70, rect_y = 40, rect_width = 30, rect_height = (60::rat) \<rparr>] = 3" by simp
  with d[of 0 1] d[of 1 2] d[of 0 2] e w h fr
  show ?thesis by (simp add: list_all_iff)
qed

end
